theory Spec2Isabelle
  imports Complex_Main
begin

section \<open>The interactive correlation-network renderer of StockGraphix\<close>

text \<open>
  A shallow embedding of \<^verbatim>\<open>drawMSTGraph\<close> of \<^verbatim>\<open>script.js\<close> (lines 707 to 902): the node
  collection, the circular layout, \<^verbatim>\<open>redrawGraph\<close> and the three pointer handlers.

  JavaScript numbers are modelled by \<^typ>\<open>real\<close>: rounding, infinities and NaN of IEEE
  doubles are outside the model, except where the code itself tests for them
  (\<^verbatim>\<open>isNaN(edge.distance)\<close>) or where a division by zero decides a comparison (the scale
  factors of the pointer handler). Ticker symbols are \<^typ>\<open>string\<close>; \<^verbatim>\<open>null\<close> is
  \<^term>\<open>None\<close>. A \<^verbatim>\<open>TypeError\<close> raised by a property read on \<^verbatim>\<open>undefined\<close> or
  \<^verbatim>\<open>null\<close> is the value \<^term>\<open>Inl TypeError\<close>.
\<close>

subsection \<open>Data\<close>

datatype error = TypeError

text \<open>A position object \<^verbatim>\<open>{x, y}\<close> of \<^verbatim>\<open>graphPositions\<close>.\<close>

record point =
  pos_x :: real
  pos_y :: real

text \<open>
  An element of \<^verbatim>\<open>stockData.mstEdges\<close>, \<^verbatim>\<open>{u, v, corr, distance}\<close>. The loader stores
  \<^verbatim>\<open>parseFloat(row.corr) || 0\<close>, which is never NaN. The distance is kept optional, since
  \<^verbatim>\<open>redrawGraph\<close> tests it with \<^verbatim>\<open>isNaN\<close>: \<^term>\<open>None\<close> stands for a distance that is
  \<^verbatim>\<open>undefined\<close> or NaN.
\<close>

record edge =
  edge_u :: string
  edge_v :: string
  edge_corr :: real
  edge_distance :: "real option"

text \<open>An element of \<^verbatim>\<open>stockData.recommendations\<close> (the fields the renderer reads).\<close>

record stock =
  ticker :: string
  label :: string
  momentum :: real

subsection \<open>The 2D drawing context\<close>

text \<open>
  The canvas is modelled by the list of paint operations applied since the surface was last
  cleared completely: the pixels are a function of that list. Each paint operation records
  the styles in force when it was issued.
\<close>

datatype colour = Css string | Rgba nat nat nat real

datatype path_seg = MoveTo real real | LineTo real real | Arc real real real real real

datatype paint =
    Stroke "path_seg list" colour real
  | Fill "path_seg list" colour
  | FillRect real real real real colour
  | FillText string real real colour string string string
  | Clear real real real real

text \<open>The part of the context state that \<^verbatim>\<open>save()\<close> pushes and \<^verbatim>\<open>restore()\<close> pops.\<close>

record draw_state =
  fillStyle :: colour
  strokeStyle :: colour
  lineWidth :: real
  font :: string
  textAlign :: string
  textBaseline :: string

record context2d =
  ds :: draw_state
  path :: "path_seg list"
  stack :: "draw_state list"
  surface :: "paint list"

definition canvas_width :: real where
  "canvas_width = 800"

definition canvas_height :: real where
  "canvas_height = 500"

text \<open>The context that \<^verbatim>\<open>canvas.getContext('2d')\<close> returns for a new canvas.\<close>

definition new_context :: context2d where
  "new_context =
     \<lparr>ds = \<lparr>fillStyle = Css ''#000000'', strokeStyle = Css ''#000000'', lineWidth = 1,
             font = ''10px sans-serif'', textAlign = ''start'', textBaseline = ''alphabetic''\<rparr>,
      path = [], stack = [], surface = []\<rparr>"

definition set_fillStyle :: "colour \<Rightarrow> context2d \<Rightarrow> context2d" where
  "set_fillStyle v c = c\<lparr>ds := (ds c)\<lparr>fillStyle := v\<rparr>\<rparr>"

definition set_strokeStyle :: "colour \<Rightarrow> context2d \<Rightarrow> context2d" where
  "set_strokeStyle v c = c\<lparr>ds := (ds c)\<lparr>strokeStyle := v\<rparr>\<rparr>"

definition set_lineWidth :: "real \<Rightarrow> context2d \<Rightarrow> context2d" where
  "set_lineWidth v c = c\<lparr>ds := (ds c)\<lparr>lineWidth := v\<rparr>\<rparr>"

definition set_font :: "string \<Rightarrow> context2d \<Rightarrow> context2d" where
  "set_font v c = c\<lparr>ds := (ds c)\<lparr>font := v\<rparr>\<rparr>"

definition set_textAlign :: "string \<Rightarrow> context2d \<Rightarrow> context2d" where
  "set_textAlign v c = c\<lparr>ds := (ds c)\<lparr>textAlign := v\<rparr>\<rparr>"

definition set_textBaseline :: "string \<Rightarrow> context2d \<Rightarrow> context2d" where
  "set_textBaseline v c = c\<lparr>ds := (ds c)\<lparr>textBaseline := v\<rparr>\<rparr>"

definition save :: "context2d \<Rightarrow> context2d" where
  "save c = c\<lparr>stack := ds c # stack c\<rparr>"

definition restore :: "context2d \<Rightarrow> context2d" where
  "restore c = (case stack c of [] \<Rightarrow> c | s # ss \<Rightarrow> c\<lparr>ds := s, stack := ss\<rparr>)"

definition beginPath :: "context2d \<Rightarrow> context2d" where
  "beginPath c = c\<lparr>path := []\<rparr>"

definition moveTo :: "real \<Rightarrow> real \<Rightarrow> context2d \<Rightarrow> context2d" where
  "moveTo x y c = c\<lparr>path := path c @ [MoveTo x y]\<rparr>"

definition lineTo :: "real \<Rightarrow> real \<Rightarrow> context2d \<Rightarrow> context2d" where
  "lineTo x y c = c\<lparr>path := path c @ [LineTo x y]\<rparr>"

definition arc :: "real \<Rightarrow> real \<Rightarrow> real \<Rightarrow> real \<Rightarrow> real \<Rightarrow> context2d \<Rightarrow> context2d" where
  "arc x y r a0 a1 c = c\<lparr>path := path c @ [Arc x y r a0 a1]\<rparr>"

definition stroke :: "context2d \<Rightarrow> context2d" where
  "stroke c = c\<lparr>surface := surface c @ [Stroke (path c) (strokeStyle (ds c)) (lineWidth (ds c))]\<rparr>"

definition fill :: "context2d \<Rightarrow> context2d" where
  "fill c = c\<lparr>surface := surface c @ [Fill (path c) (fillStyle (ds c))]\<rparr>"

definition fillRect :: "real \<Rightarrow> real \<Rightarrow> real \<Rightarrow> real \<Rightarrow> context2d \<Rightarrow> context2d" where
  "fillRect x y w h c = c\<lparr>surface := surface c @ [FillRect x y w h (fillStyle (ds c))]\<rparr>"

definition fillText :: "string \<Rightarrow> real \<Rightarrow> real \<Rightarrow> context2d \<Rightarrow> context2d" where
  "fillText t x y c =
     c\<lparr>surface := surface c @
        [FillText t x y (fillStyle (ds c)) (font (ds c)) (textAlign (ds c)) (textBaseline (ds c))]\<rparr>"

text \<open>
  \<^verbatim>\<open>clearRect\<close> erases a rectangle. When the rectangle covers the whole canvas nothing
  painted before can be seen any more, and the list of paint operations starts again.
\<close>

definition clearRect :: "real \<Rightarrow> real \<Rightarrow> real \<Rightarrow> real \<Rightarrow> context2d \<Rightarrow> context2d" where
  "clearRect x y w h c =
     (if x \<le> 0 \<and> y \<le> 0 \<and> canvas_width \<le> x + w \<and> canvas_height \<le> y + h
      then c\<lparr>surface := []\<rparr>
      else c\<lparr>surface := surface c @ [Clear x y w h]\<rparr>)"

subsection \<open>Built-in functions of the language\<close>

text \<open>
  What the host supplies: \<open>measureText env font text\<close> is the width that
  \<^verbatim>\<open>measureText(text).width\<close> reports under the font, and \<open>numberToString env x\<close> is the
  string of \<^verbatim>\<open>Number::toString\<close> for a number \<open>x\<close> of magnitude \<open>10\<^sup>2\<^sup>1\<close> or more (its
  exponent form).
\<close>

record browser =
  measureText :: "string \<Rightarrow> string \<Rightarrow> real"
  numberToString :: "real \<Rightarrow> string"

text \<open>
  \<^verbatim>\<open>Number.prototype.toFixed(2)\<close> on an exact real: the sign, then for a magnitude of
  \<open>10\<^sup>2\<^sup>1\<close> or more the string of the magnitude, and else the nearest multiple of 1/100
  (the larger one of two) in decimal.
\<close>

definition digit_char :: "nat \<Rightarrow> char" where
  "digit_char d = ''0123456789'' ! d"

fun show_nat :: "nat \<Rightarrow> string" where
  "show_nat n = (if n < 10 then [digit_char n] else show_nat (n div 10) @ [digit_char (n mod 10)])"

definition toFixed2 :: "browser \<Rightarrow> real \<Rightarrow> string" where
  "toFixed2 env x =
     (let n = nat \<lfloor>\<bar>x\<bar> * 100 + 1 / 2\<rfloor>
      in (if x < 0 then ''-'' else '''') @
         (if \<bar>x\<bar> \<ge> 10 ^ 21 then numberToString env \<bar>x\<bar>
          else show_nat (n div 100) @ ''.'' @
               [digit_char (n mod 100 div 10), digit_char (n mod 10)]))"

text \<open>\<^verbatim>\<open>String.prototype.replace\<close> with a string pattern: the first occurrence only.\<close>

fun replace_first :: "string \<Rightarrow> string \<Rightarrow> string \<Rightarrow> string" where
  "replace_first pat rep [] = (if pat = [] then rep else [])"
| "replace_first pat rep (c # cs) =
     (if take (length pat) (c # cs) = pat then rep @ drop (length pat) (c # cs)
      else c # replace_first pat rep cs)"

text \<open>The truth value of a ticker or \<^verbatim>\<open>null\<close> in a condition: the empty string is falsy.\<close>

definition truthy :: "string option \<Rightarrow> bool" where
  "truthy v = (case v of None \<Rightarrow> False | Some s \<Rightarrow> s \<noteq> [])"

subsection \<open>The module state\<close>

text \<open>
  The globals of \<^verbatim>\<open>script.js\<close> that the graph code reads and writes. \<^term>\<open>placeholder\<close>
  says whether \<^verbatim>\<open>document.querySelector('.graph-placeholder')\<close> finds an element,
  \<^term>\<open>listeners\<close> whether the three handlers are registered on the canvas. Two fields
  observe calls: \<^term>\<open>repaints\<close> counts the calls of \<^verbatim>\<open>redrawGraph\<close>, and \<^term>\<open>selected\<close>
  lists the arguments of the calls of \<^verbatim>\<open>showStockDetails\<close>.
\<close>

record globals =
  placeholder :: bool
  mstEdges :: "edge list"
  recommendations :: "stock list"
  graphCtx :: "context2d option"
  graphPositions :: "string \<rightharpoonup> point"
  graphNodeList :: "string list"
  hoveredNode :: "string option"
  listeners :: bool
  repaints :: nat
  selected :: "string list"

text \<open>The state when the script is loaded, with the data the loader has stored.\<close>

definition initial :: "edge list \<Rightarrow> stock list \<Rightarrow> bool \<Rightarrow> globals" where
  "initial es rs ph =
     \<lparr>placeholder = ph, mstEdges = es, recommendations = rs, graphCtx = None,
      graphPositions = Map.empty, graphNodeList = [], hoveredNode = None,
      listeners = False, repaints = 0, selected = []\<rparr>"

declare show_nat.simps [simp del]

subsection \<open>The graph builder\<close>

text \<open>
  \<^verbatim>\<open>Set.prototype.add\<close> on a set of strings, kept as the list of its members in insertion
  order (the order in which \<^verbatim>\<open>Array.from\<close> lists them).
\<close>

definition set_add :: "string list \<Rightarrow> string \<Rightarrow> string list" where
  "set_add s x = (if x \<in> set s then s else s @ [x])"

text \<open>Lines 733 to 738: both endpoints of every edge are added, \<^verbatim>\<open>u\<close> first.\<close>

definition collect_nodes :: "edge list \<Rightarrow> string list" where
  "collect_nodes es = fold (\<lambda>e s. set_add (set_add s (edge_u e)) (edge_v e)) es []"

definition centerX :: real where
  "centerX = canvas_width / 2"

definition centerY :: real where
  "centerY = canvas_height / 2"

definition radius :: real where
  "radius = min canvas_width canvas_height * 0.35"

definition angle :: "nat \<Rightarrow> nat \<Rightarrow> real" where
  "angle i n = (2 * pi * real i) / real n"

text \<open>
  The position of node \<open>i\<close> of \<open>n\<close>, lines 747 to 751, in exact arithmetic. The code
  computes it in doubles, with \<^verbatim>\<open>Math.PI\<close>, \<^verbatim>\<open>Math.cos\<close> and \<^verbatim>\<open>Math.sin\<close>, and stores the
  rounded numbers.
\<close>

definition node_position :: "nat \<Rightarrow> nat \<Rightarrow> point" where
  "node_position i n =
     \<lparr>pos_x = centerX + radius * cos (angle i n), pos_y = centerY + radius * sin (angle i n)\<rparr>"

text \<open>
  Lines 746 to 752: the loop over \<^verbatim>\<open>graphNodeList\<close> with its index, storing into
  \<^verbatim>\<open>graphPositions\<close>; \<open>n\<close> is \<^verbatim>\<open>graphNodeList.length\<close>.
\<close>

fun place_nodes :: "string list \<Rightarrow> nat \<Rightarrow> nat \<Rightarrow> (string \<rightharpoonup> point) \<Rightarrow> (string \<rightharpoonup> point)" where
  "place_nodes [] i n m = m"
| "place_nodes (node # rest) i n m = place_nodes rest (Suc i) n (m(node \<mapsto> node_position i n))"

subsection \<open>The renderer\<close>

text \<open>Line 764: \<^verbatim>\<open>hoveredNode && (edge.u === hoveredNode || edge.v === hoveredNode)\<close>.\<close>

definition isHighlighted :: "string option \<Rightarrow> edge \<Rightarrow> bool" where
  "isHighlighted h e = (truthy h \<and> (Some (edge_u e) = h \<or> Some (edge_v e) = h))"

definition edge_alpha :: "string option \<Rightarrow> edge \<Rightarrow> real" where
  "edge_alpha h e = (if isHighlighted h e then 1.0 else max 0.3 \<bar>edge_corr e\<bar>)"

definition edge_lineWidth :: "string option \<Rightarrow> edge \<Rightarrow> real" where
  "edge_lineWidth h e = (if isHighlighted h e then 3 else 2)"

text \<open>
  Line 777: \<^verbatim>\<open>!isNaN(edge.distance) && edge.distance !== 0 ? edge.distance : edge.corr\<close>.
\<close>

definition weightValue :: "edge \<Rightarrow> real" where
  "weightValue e =
     (case edge_distance e of
        None \<Rightarrow> edge_corr e
      | Some d \<Rightarrow> if d \<noteq> 0 then d else edge_corr e)"

text \<open>
  The label of an edge, lines 778 to 793. The test \<^verbatim>\<open>!isNaN(weightValue)\<close> holds for
  every number of the model.
\<close>

definition draw_edge_label ::
  "browser \<Rightarrow> string option \<Rightarrow> edge \<Rightarrow> point \<Rightarrow> point \<Rightarrow> context2d \<Rightarrow> context2d" where
  "draw_edge_label env h e u v c =
     (let midX = (pos_x u + pos_x v) / 2;
          midY = (pos_y u + pos_y v) / 2;
          lbl = toFixed2 env (weightValue e);
          c = save c;
          c = set_font ''10px \"Segoe UI\", sans-serif'' c;
          textWidth = measureText env (font (ds c)) lbl;
          padding = 4;
          c = set_fillStyle (Rgba 13 17 23 0.85) c;
          c = fillRect (midX - textWidth / 2 - padding) (midY - 8) (textWidth + padding * 2) 16 c;
          c = set_fillStyle (if isHighlighted h e then Css ''#58a6ff'' else Css ''#8b949e'') c;
          c = set_textAlign ''center'' c;
          c = set_textBaseline ''middle'' c;
          c = fillText lbl midX midY c
      in restore c)"

text \<open>One round of the loop over the edges, lines 759 to 795.\<close>

definition draw_edge ::
  "browser \<Rightarrow> (string \<rightharpoonup> point) \<Rightarrow> string option \<Rightarrow> edge \<Rightarrow> context2d \<Rightarrow> context2d" where
  "draw_edge env P h e c =
     (case (P (edge_u e), P (edge_v e)) of
        (Some u, Some v) \<Rightarrow>
          (let c = set_strokeStyle (Rgba 88 166 255 (edge_alpha h e)) c;
               c = set_lineWidth (edge_lineWidth h e) c;
               c = beginPath c;
               c = moveTo (pos_x u) (pos_y u) c;
               c = lineTo (pos_x v) (pos_y v) c;
               c = stroke c
           in draw_edge_label env h e u v c)
      | _ \<Rightarrow> c)"

text \<open>Lines 805 to 807: grey, then green for BUY, then red for AVOID.\<close>

definition nodeColor :: "string \<Rightarrow> colour" where
  "nodeColor lbl =
     (let col = Css ''#8b949e'';
          col = (if lbl = ''BUY'' then Css ''#3fb950'' else col);
          col = (if lbl = ''AVOID'' then Css ''#f85149'' else col)
      in col)"

text \<open>Lines 830 to 837, the two lines of text under a hovered node that has a stock.\<close>

definition draw_hover_info :: "browser \<Rightarrow> stock \<Rightarrow> point \<Rightarrow> context2d \<Rightarrow> context2d" where
  "draw_hover_info env s pos c =
     (let momentumPercent = toFixed2 env (momentum s * 100);
          sign = (if momentum s \<ge> 0 then ''+'' else []);
          c = set_fillStyle (Css ''#8b949e'') c;
          c = set_font ''10px \"Segoe UI\", sans-serif'' c;
          c = fillText (sign @ momentumPercent @ ''%'') (pos_x pos) (pos_y pos + 35) c
      in fillText (label s) (pos_x pos) (pos_y pos + 48) c)"

text \<open>
  One round of the loop over the nodes, lines 798 to 838. The position is read without a
  test: \<^verbatim>\<open>pos.x\<close> raises when \<^verbatim>\<open>graphPositions[node]\<close> is undefined.
\<close>

definition draw_node ::
  "browser \<Rightarrow> stock list \<Rightarrow> (string \<rightharpoonup> point) \<Rightarrow> string option \<Rightarrow> string \<Rightarrow> context2d \<Rightarrow> error + context2d" where
  "draw_node env rs P h node c =
     (case P node of
        None \<Rightarrow> Inl TypeError
      | Some pos \<Rightarrow>
          (let stock = find (\<lambda>s. ticker s = node) rs;
               lbl = (case stock of Some s \<Rightarrow> label s | None \<Rightarrow> ''HOLD'');
               isHovered = (h = Some node);
               nodeRadius = (if isHovered then 20 else 15);
               c = set_fillStyle (nodeColor lbl) c;
               c = beginPath c;
               c = arc (pos_x pos) (pos_y pos) nodeRadius 0 (2 * pi) c;
               c = fill c;
               c = set_strokeStyle (if isHovered then Css ''#58a6ff'' else Css ''#161b22'') c;
               c = set_lineWidth (if isHovered then 3 else 2) c;
               c = stroke c;
               c = set_fillStyle (if isHovered then Css ''#58a6ff'' else Css ''#e6edf3'') c;
               c = set_font (if isHovered then ''bold 13px \"Segoe UI\", sans-serif''
                             else ''12px \"Segoe UI\", sans-serif'') c;
               c = set_textAlign ''center'' c;
               c = set_textBaseline ''middle'' c;
               displayName = replace_first ''.NS'' [] node;
               c = fillText displayName (pos_x pos) (pos_y pos - 30) c
           in Inr (case stock of
                     Some s \<Rightarrow> if isHovered then draw_hover_info env s pos c else c
                   | None \<Rightarrow> c)))"

fun draw_nodes ::
  "browser \<Rightarrow> stock list \<Rightarrow> (string \<rightharpoonup> point) \<Rightarrow> string option \<Rightarrow> string list \<Rightarrow> context2d \<Rightarrow> error + context2d" where
  "draw_nodes env rs P h [] c = Inr c"
| "draw_nodes env rs P h (node # rest) c =
     (case draw_node env rs P h node c of
        Inl err \<Rightarrow> Inl err
      | Inr c' \<Rightarrow> draw_nodes env rs P h rest c')"

text \<open>Lines 840 to 861.\<close>

definition draw_legend :: "context2d \<Rightarrow> context2d" where
  "draw_legend c =
     (let c = set_fillStyle (Css ''#8b949e'') c;
          c = set_font ''11px \"Segoe UI\", sans-serif'' c;
          c = set_textAlign ''left'' c;
          c = fillText ''BUY'' 20 (canvas_height - 50) c;
          c = fillText ''HOLD'' 20 (canvas_height - 35) c;
          c = fillText ''AVOID'' 20 (canvas_height - 20) c;
          c = set_fillStyle (Css ''#3fb950'') c;
          c = beginPath c;
          c = arc 10 (canvas_height - 50) 5 0 (2 * pi) c;
          c = fill c;
          c = set_fillStyle (Css ''#8b949e'') c;
          c = beginPath c;
          c = arc 10 (canvas_height - 35) 5 0 (2 * pi) c;
          c = fill c;
          c = set_fillStyle (Css ''#f85149'') c;
          c = beginPath c;
          c = arc 10 (canvas_height - 20) 5 0 (2 * pi) c
      in fill c)"

text \<open>
  \<^verbatim>\<open>redrawGraph\<close>, lines 755 to 862, on the context \<^verbatim>\<open>graphCtx\<close>; every call is counted
  in \<^term>\<open>repaints\<close>.
\<close>

definition redrawGraph :: "browser \<Rightarrow> globals \<Rightarrow> error + globals" where
  "redrawGraph env g =
     (case graphCtx g of
        None \<Rightarrow> Inl TypeError
      | Some c \<Rightarrow>
          (let c = clearRect 0 0 canvas_width canvas_height c;
               c = fold (draw_edge env (graphPositions g) (hoveredNode g)) (mstEdges g) c
           in case draw_nodes env (recommendations g) (graphPositions g) (hoveredNode g)
                     (graphNodeList g) c of
                Inl err \<Rightarrow> Inl err
              | Inr c \<Rightarrow> Inr (g\<lparr>graphCtx := Some (draw_legend c), repaints := repaints g + 1\<rparr>)))"

subsection \<open>The pointer handlers\<close>

record mouse_event =
  clientX :: real
  clientY :: real

text \<open>The rectangle that \<^verbatim>\<open>canvas.getBoundingClientRect()\<close> returns: the displayed size.\<close>

record rect =
  rect_left :: real
  rect_top :: real
  rect_width :: real
  rect_height :: real

text \<open>
  Lines 866 to 870, the pointer in the coordinates of the canvas. A displayed width or
  height of zero makes a scale factor infinite and the coordinate infinite or NaN: the
  result is then \<^term>\<open>None\<close>, a pointer that is at no finite place.
\<close>

definition surface_coords :: "rect \<Rightarrow> mouse_event \<Rightarrow> (real \<times> real) option" where
  "surface_coords r ev =
     (if rect_width r = 0 \<or> rect_height r = 0 then None
      else let scaleX = canvas_width / rect_width r;
               scaleY = canvas_height / rect_height r
           in Some ((clientX ev - rect_left r) * scaleX, (clientY ev - rect_top r) * scaleY))"

definition distance_to :: "real \<Rightarrow> real \<Rightarrow> point \<Rightarrow> real" where
  "distance_to x y pos = sqrt ((x - pos_x pos)\<^sup>2 + (y - pos_y pos)\<^sup>2)"

text \<open>
  Line 876, \<^verbatim>\<open>distance <= 20\<close>: a comparison with an infinite or NaN distance is false.
\<close>

definition hit :: "(real \<times> real) option \<Rightarrow> point \<Rightarrow> bool" where
  "hit xy pos = (case xy of None \<Rightarrow> False | Some (x, y) \<Rightarrow> distance_to x y pos \<le> 20)"

text \<open>
  Lines 872 to 879, the loop over \<^verbatim>\<open>graphNodeList\<close> that assigns \<^verbatim>\<open>foundNode\<close>. The
  position is read without a test.
\<close>

fun find_node ::
  "(string \<rightharpoonup> point) \<Rightarrow> (real \<times> real) option \<Rightarrow> string list \<Rightarrow> string option \<Rightarrow> error + string option" where
  "find_node P xy [] foundNode = Inr foundNode"
| "find_node P xy (node # rest) foundNode =
     (case P node of
        None \<Rightarrow> Inl TypeError
      | Some pos \<Rightarrow> find_node P xy rest (if hit xy pos then Some node else foundNode))"

definition on_mousemove ::
  "browser \<Rightarrow> globals \<Rightarrow> rect \<Rightarrow> mouse_event \<Rightarrow> error + globals" where
  "on_mousemove env g r ev =
     (case find_node (graphPositions g) (surface_coords r ev) (graphNodeList g) None of
        Inl err \<Rightarrow> Inl err
      | Inr foundNode \<Rightarrow>
          if foundNode \<noteq> hoveredNode g then redrawGraph env (g\<lparr>hoveredNode := foundNode\<rparr>)
          else Inr g)"

definition on_mouseleave :: "browser \<Rightarrow> globals \<Rightarrow> error + globals" where
  "on_mouseleave env g = redrawGraph env (g\<lparr>hoveredNode := None\<rparr>)"

text \<open>Lines 894 to 898: \<^verbatim>\<open>if (hoveredNode) showStockDetails(hoveredNode)\<close>.\<close>

definition on_click :: "globals \<Rightarrow> globals" where
  "on_click g =
     (case hoveredNode g of
        Some node \<Rightarrow> if truthy (hoveredNode g) then g\<lparr>selected := selected g @ [node]\<rparr> else g
      | None \<Rightarrow> g)"

datatype event = MouseMove rect mouse_event | MouseLeave | Click

text \<open>An event on the canvas reaches a handler only when the handlers are registered.\<close>

definition dispatch :: "browser \<Rightarrow> globals \<Rightarrow> event \<Rightarrow> error + globals" where
  "dispatch env g e =
     (if \<not> listeners g then Inr g
      else case e of
             MouseMove r ev \<Rightarrow> on_mousemove env g r ev
           | MouseLeave \<Rightarrow> on_mouseleave env g
           | Click \<Rightarrow> Inr (on_click g))"

subsection \<open>The entry point\<close>

text \<open>
  \<^verbatim>\<open>drawMSTGraph\<close>, lines 707 to 902: the early return, the new canvas, the node list, the
  layout, the handlers and the first paint.
\<close>

definition drawMSTGraph :: "browser \<Rightarrow> globals \<Rightarrow> error + globals" where
  "drawMSTGraph env g =
     (if \<not> placeholder g \<or> length (mstEdges g) = 0 then Inr g
      else let nodes = collect_nodes (mstEdges g);
               g = g\<lparr>graphCtx := Some new_context,
                     graphNodeList := nodes,
                     graphPositions := place_nodes nodes 0 (length nodes) (graphPositions g),
                     listeners := True\<rparr>
           in redrawGraph env g)"

subsection \<open>The painted scene\<close>

text \<open>
  What one round of the loop over the edges paints: nothing when an endpoint has no
  position, else the line, the patch behind the label and the label.
\<close>

definition edge_paints ::
  "browser \<Rightarrow> (string \<rightharpoonup> point) \<Rightarrow> string option \<Rightarrow> edge \<Rightarrow> paint list" where
  "edge_paints env P h e =
     (case (P (edge_u e), P (edge_v e)) of
        (Some u, Some v) \<Rightarrow>
          (let midX = (pos_x u + pos_x v) / 2;
               midY = (pos_y u + pos_y v) / 2;
               lbl = toFixed2 env (weightValue e);
               textWidth = measureText env ''10px \"Segoe UI\", sans-serif'' lbl
           in [Stroke [MoveTo (pos_x u) (pos_y u), LineTo (pos_x v) (pos_y v)]
                 (Rgba 88 166 255 (edge_alpha h e)) (edge_lineWidth h e),
               FillRect (midX - textWidth / 2 - 4) (midY - 8) (textWidth + 8) 16
                 (Rgba 13 17 23 0.85),
               FillText lbl midX midY
                 (if isHighlighted h e then Css ''#58a6ff'' else Css ''#8b949e'')
                 ''10px \"Segoe UI\", sans-serif'' ''center'' ''middle''])
      | _ \<Rightarrow> [])"

text \<open>What one round of the loop over the nodes paints, for a node at the position \<open>pos\<close>.\<close>

definition node_paints :: "browser \<Rightarrow> stock list \<Rightarrow> string option \<Rightarrow> string \<Rightarrow> point \<Rightarrow> paint list" where
  "node_paints env rs h node pos =
     (let stock = find (\<lambda>s. ticker s = node) rs;
          lbl = (case stock of Some s \<Rightarrow> label s | None \<Rightarrow> ''HOLD'');
          isHovered = (h = Some node);
          circle = [Arc (pos_x pos) (pos_y pos) (if isHovered then 20 else 15) 0 (2 * pi)]
      in [Fill circle (nodeColor lbl),
          Stroke circle (if isHovered then Css ''#58a6ff'' else Css ''#161b22'')
            (if isHovered then 3 else 2),
          FillText (replace_first ''.NS'' [] node) (pos_x pos) (pos_y pos - 30)
            (if isHovered then Css ''#58a6ff'' else Css ''#e6edf3'')
            (if isHovered then ''bold 13px \"Segoe UI\", sans-serif''
             else ''12px \"Segoe UI\", sans-serif'')
            ''center'' ''middle'']
         @ (case stock of
              None \<Rightarrow> []
            | Some s \<Rightarrow>
                if isHovered
                then [FillText ((if momentum s \<ge> 0 then ''+'' else []) @
                                  toFixed2 env (momentum s * 100) @ ''%'')
                        (pos_x pos) (pos_y pos + 35) (Css ''#8b949e'')
                        ''10px \"Segoe UI\", sans-serif'' ''center'' ''middle'',
                      FillText (label s) (pos_x pos) (pos_y pos + 48) (Css ''#8b949e'')
                        ''10px \"Segoe UI\", sans-serif'' ''center'' ''middle'']
                else []))"

text \<open>
  What the legend paints. Its three texts are drawn with the text baseline that is in
  force, which the code does not set here.
\<close>

definition legend_paints :: "string \<Rightarrow> paint list" where
  "legend_paints baseline =
     [FillText ''BUY'' 20 (canvas_height - 50) (Css ''#8b949e'')
        ''11px \"Segoe UI\", sans-serif'' ''left'' baseline,
      FillText ''HOLD'' 20 (canvas_height - 35) (Css ''#8b949e'')
        ''11px \"Segoe UI\", sans-serif'' ''left'' baseline,
      FillText ''AVOID'' 20 (canvas_height - 20) (Css ''#8b949e'')
        ''11px \"Segoe UI\", sans-serif'' ''left'' baseline,
      Fill [Arc 10 (canvas_height - 50) 5 0 (2 * pi)] (Css ''#3fb950''),
      Fill [Arc 10 (canvas_height - 35) 5 0 (2 * pi)] (Css ''#8b949e''),
      Fill [Arc 10 (canvas_height - 20) 5 0 (2 * pi)] (Css ''#f85149'')]"

text \<open>
  The scene of a graph with at least one node: a function of the edges, the
  recommendations, the node list, the positions and the hovered node alone.
\<close>

definition scene :: "browser \<Rightarrow> globals \<Rightarrow> paint list" where
  "scene env g =
     concat (map (edge_paints env (graphPositions g) (hoveredNode g)) (mstEdges g)) @
     concat (map (\<lambda>n. case graphPositions g n of
                         None \<Rightarrow> []
                       | Some pos \<Rightarrow> node_paints env (recommendations g) (hoveredNode g) n pos)
                 (graphNodeList g)) @
     legend_paints ''middle''"

subsection \<open>Notions of the specification\<close>

text \<open>The endpoints of an edge list in the order in which they are met, source first.\<close>

definition endpoints :: "edge list \<Rightarrow> string list" where
  "endpoints es = concat (map (\<lambda>e. [edge_u e, edge_v e]) es)"

text \<open>A list without its repetitions, every element at the place where it is first seen.\<close>

fun first_seen :: "'a list \<Rightarrow> 'a list" where
  "first_seen [] = []"
| "first_seen (x # xs) = x # first_seen (filter (\<lambda>y. y \<noteq> x) xs)"

text \<open>
  The hover resolution in the words of the specification: the last node of the list, in
  its order, whose position is a hit; no node when there is none.
\<close>

definition last_hit :: "(string \<rightharpoonup> point) \<Rightarrow> (real \<times> real) option \<Rightarrow> string list \<Rightarrow> string option" where
  "last_hit P xy nodes =
     (case filter (\<lambda>n. case P n of None \<Rightarrow> False | Some pos \<Rightarrow> hit xy pos) nodes of
        [] \<Rightarrow> None
      | hs \<Rightarrow> Some (last hs))"

text \<open>
  The state in which the handlers run: the canvas exists, the node list is not empty and
  every node of the list has a position.
\<close>

definition built :: "globals \<Rightarrow> bool" where
  "built g = (graphCtx g \<noteq> None \<and> graphNodeList g \<noteq> [] \<and>
              list_all (\<lambda>n. graphPositions g n \<noteq> None) (graphNodeList g))"

text \<open>
  The state after a paint: the graph is built, both endpoints of every edge have a
  position, and the surface shows the scene of the state.
\<close>

definition painted :: "browser \<Rightarrow> globals \<Rightarrow> bool" where
  "painted env g =
     (built g \<and>
      list_all (\<lambda>e. graphPositions g (edge_u e) \<noteq> None \<and> graphPositions g (edge_v e) \<noteq> None)
        (mstEdges g) \<and>
      (case graphCtx g of None \<Rightarrow> False | Some c \<Rightarrow> surface c = scene env g))"

text \<open>The events of a session, delivered one after the other; an error ends the session.\<close>

fun run :: "browser \<Rightarrow> globals \<Rightarrow> event list \<Rightarrow> error + globals" where
  "run env g [] = Inr g"
| "run env g (e # es) = (case dispatch env g e of Inl err \<Rightarrow> Inl err | Inr g' \<Rightarrow> run env g' es)"

subsection \<open>Example inputs\<close>

text \<open>
  One edge between two tickers, and a host that reports a width of six units for every
  character.
\<close>

definition edges_AB :: "edge list" where
  "edges_AB = [\<lparr>edge_u = ''A'', edge_v = ''B'', edge_corr = 0.8, edge_distance = Some 0.3\<rparr>]"

definition env6 :: browser where
  "env6 = \<lparr>measureText = (\<lambda>f t. 6 * real (length t)), numberToString = (\<lambda>x. ''1e+21'')\<rparr>"

text \<open>
  The positions of the layout for the two nodes A and B, a canvas displayed at half its
  size, and a pointer that is then over the centre of A.
\<close>

definition positions_AB :: "string \<rightharpoonup> point" where
  "positions_AB = [''A'' \<mapsto> \<lparr>pos_x = 575, pos_y = 250\<rparr>, ''B'' \<mapsto> \<lparr>pos_x = 225, pos_y = 250\<rparr>]"

definition rect_half :: rect where
  "rect_half = \<lparr>rect_left = 10, rect_top = 20, rect_width = 400, rect_height = 250\<rparr>"

definition pointer_at_A :: mouse_event where
  "pointer_at_A = \<lparr>clientX = 297.5, clientY = 145\<rparr>"

text \<open>A view of the two nodes A and B after the first paint, with no node hovered.\<close>

definition view_AB :: globals where
  "view_AB =
     \<lparr>placeholder = True, mstEdges = edges_AB, recommendations = [],
      graphCtx = Some new_context, graphPositions = positions_AB,
      graphNodeList = [''A'', ''B''], hoveredNode = None,
      listeners = True, repaints = 1, selected = []\<rparr>"

text \<open>
  An edge list as the loader stores it for a row of \<^verbatim>\<open>mst_edges.csv\<close> whose \<^verbatim>\<open>u\<close> field
  is empty; the canvas displayed at its own size; a pointer over the first node; and the
  session in which the graph is drawn from that edge list and the given events follow.
\<close>

definition edges_empty_ticker :: "edge list" where
  "edges_empty_ticker =
     [\<lparr>edge_u = [], edge_v = ''AAPL'', edge_corr = 0.5, edge_distance = Some 0.7\<rparr>]"

definition rect_full :: rect where
  "rect_full = \<lparr>rect_left = 0, rect_top = 0, rect_width = 800, rect_height = 500\<rparr>"

definition pointer_first_node :: mouse_event where
  "pointer_first_node = \<lparr>clientX = 575, clientY = 250\<rparr>"

definition session_empty_ticker :: "event list \<Rightarrow> error + globals" where
  "session_empty_ticker evs =
     (case drawMSTGraph env6 (initial edges_empty_ticker [] True) of
        Inl err \<Rightarrow> Inl err
      | Inr g \<Rightarrow> run env6 g evs)"

text \<open>An edge whose distance is zero, and a context with paint and other styles on it.\<close>

definition edge_zero_distance :: edge where
  "edge_zero_distance =
     \<lparr>edge_u = ''A'', edge_v = ''B'', edge_corr = 0.42, edge_distance = Some 0\<rparr>"

definition used_context :: context2d where
  "used_context =
     \<lparr>ds = \<lparr>fillStyle = Css ''red'', strokeStyle = Css ''blue'', lineWidth = 7,
             font = ''20px serif'', textAlign = ''right'', textBaseline = ''top''\<rparr>,
      path = [MoveTo 1 2], stack = [], surface = [FillRect 0 0 800 500 (Css ''red'')]\<rparr>"

section \<open>The node list\<close>

lemma set_first_seen: "set (first_seen xs) = set xs"
  by (induction xs rule: first_seen.induct) auto

lemma distinct_first_seen: "distinct (first_seen xs)"
  by (induction xs rule: first_seen.induct) (auto simp: set_first_seen)

lemma fold_set_add:
  "fold (\<lambda>x s. set_add s x) xs acc = acc @ first_seen (filter (\<lambda>x. x \<notin> set acc) xs)"
proof (induction xs arbitrary: acc)
  case Nil
  show ?case by simp
next
  case (Cons x xs)
  show ?case
  proof (cases "x \<in> set acc")
    case True
    then show ?thesis using Cons[of acc] by (simp add: set_add_def)
  next
    case False
    have "filter (\<lambda>y. y \<noteq> x) (filter (\<lambda>y. y \<notin> set acc) xs) =
          filter (\<lambda>y. y \<notin> set (acc @ [x])) xs"
      by (auto intro: filter_cong)
    then show ?thesis using False Cons[of "acc @ [x]"] by (simp add: set_add_def)
  qed
qed

lemma fold_edges_endpoints:
  "fold (\<lambda>e s. set_add (set_add s (edge_u e)) (edge_v e)) es acc =
   fold (\<lambda>x s. set_add s x) (endpoints es) acc"
  by (induction es arbitrary: acc) (simp_all add: endpoints_def)

lemma collect_nodes_first_seen: "collect_nodes es = first_seen (endpoints es)"
  by (simp add: collect_nodes_def fold_edges_endpoints fold_set_add)

lemma distinct_collect_nodes: "distinct (collect_nodes es)"
  by (simp add: collect_nodes_first_seen distinct_first_seen)

lemma set_collect_nodes: "set (collect_nodes es) = edge_u ` set es \<union> edge_v ` set es"
  by (auto simp: collect_nodes_first_seen set_first_seen endpoints_def)

lemma collect_nodes_nonempty: "es \<noteq> [] \<Longrightarrow> collect_nodes es \<noteq> []"
proof -
  assume "es \<noteq> []"
  then have "set (collect_nodes es) \<noteq> {}" by (simp add: set_collect_nodes)
  then show ?thesis by auto
qed

text \<open>
  Claim C3. For every edge list, the node list of the builder is the list of the endpoints
  (sources and targets) of the edges in first-seen order: its members are exactly the
  endpoints, and no member occurs twice.
\<close>

theorem node_list_unique_endpoints:
  "collect_nodes es = first_seen (endpoints es)
   \<and> set (collect_nodes es) = edge_u ` set es \<union> edge_v ` set es
   \<and> distinct (collect_nodes es)"
  using collect_nodes_first_seen set_collect_nodes distinct_collect_nodes by blast

section \<open>The layout\<close>

lemma place_nodes_other: "x \<notin> set ns \<Longrightarrow> place_nodes ns i n m x = m x"
  by (induction ns arbitrary: i m) auto

lemma place_nodes_nth:
  "distinct ns \<Longrightarrow> k < length ns \<Longrightarrow>
   place_nodes ns i n m (ns ! k) = Some (node_position (i + k) n)"
proof (induction ns arbitrary: i m k)
  case Nil
  then show ?case by simp
next
  case (Cons a ns)
  show ?case
  proof (cases k)
    case 0
    then show ?thesis using Cons.prems by (simp add: place_nodes_other)
  next
    case (Suc k')
    then show ?thesis using Cons.prems Cons.IH[of k' "Suc i"] by simp
  qed
qed

lemma place_nodes_defined: "x \<in> set ns \<Longrightarrow> place_nodes ns i n m x \<noteq> None"
proof (induction ns arbitrary: i m)
  case Nil
  then show ?case by simp
next
  case (Cons a ns)
  show ?case
  proof (cases "x \<in> set ns")
    case True
    then show ?thesis using Cons.IH by simp
  next
    case False
    then have "x = a" using Cons.prems by simp
    then show ?thesis using False by (simp add: place_nodes_other)
  qed
qed

lemma radius_value: "radius = 175"
  by (simp add: radius_def canvas_width_def canvas_height_def)

lemma same_direction_same_index:
  assumes "i < n" "j < n"
    and "cos (angle i n) = cos (angle j n)" "sin (angle i n) = sin (angle j n)"
  shows "i = j"
proof -
  from assms(3,4) obtain k :: int where k: "angle i n = angle j n + 2 * pi * real_of_int k"
    using sin_cos_eq_iff[of "angle i n" "angle j n"] by auto
  have npos: "0 < real n" using assms(1) by simp
  have "2 * pi * real i / real n = (2 * pi * real j + 2 * pi * real_of_int k * real n) / real n"
    using k npos by (simp add: angle_def field_simps)
  then have "2 * pi * real i = 2 * pi * real j + 2 * pi * real_of_int k * real n"
    using npos by simp
  then have "2 * pi * real i = 2 * pi * (real j + real_of_int k * real n)"
    by (simp add: algebra_simps)
  then have "real i = real j + real_of_int k * real n"
    by simp
  then have eq: "int i = int j + k * int n"
    by (metis (mono_tags, opaque_lifting) of_int_add of_int_eq_iff of_int_mult of_int_of_nat_eq)
  have "k = 0"
  proof (rule ccontr)
    assume "k \<noteq> 0"
    then consider "k \<ge> 1" | "k \<le> -1" by linarith
    then show False
    proof cases
      case 1
      then have "k * int n \<ge> int n" using assms(1) by (simp add: mult_le_cancel_right1)
      then show False using eq assms by linarith
    next
      case 2
      then have "k * int n \<le> - int n" using assms(1)
        by (metis mult_le_cancel_right1 mult_minus_left neg_le_iff_le of_nat_0_le_iff
            minus_le_iff mult_left_mono mult.commute mult_minus1_right)
      then show False using eq assms by linarith
    qed
  qed
  then show ?thesis using eq by simp
qed

lemma node_position_inj:
  assumes "i < n" "j < n" "node_position i n = node_position j n"
  shows "i = j"
proof -
  have "radius * cos (angle i n) = radius * cos (angle j n)"
    and "radius * sin (angle i n) = radius * sin (angle j n)"
    using assms(3) by (simp_all add: node_position_def)
  then have "cos (angle i n) = cos (angle j n)" and "sin (angle i n) = sin (angle j n)"
    by (simp_all add: radius_value)
  then show ?thesis using assms(1,2) by (rule same_direction_same_index[rotated 2])
qed

lemma node_position_on_circle: "distance_to centerX centerY (node_position i n) = radius"
proof -
  have "(radius * cos (angle i n))\<^sup>2 + (radius * sin (angle i n))\<^sup>2 =
        radius\<^sup>2 * ((cos (angle i n))\<^sup>2 + (sin (angle i n))\<^sup>2)"
    by (simp add: power_mult_distrib flip: distrib_left)
  also have "\<dots> = radius\<^sup>2" by simp
  finally have "sqrt ((radius * cos (angle i n))\<^sup>2 + (radius * sin (angle i n))\<^sup>2) = \<bar>radius\<bar>"
    by simp
  then show ?thesis
    by (simp add: distance_to_def node_position_def radius_value power2_commute)
qed

lemma angle_spacing: "0 < n \<Longrightarrow> angle (Suc i) n - angle i n = 2 * pi / real n"
  by (simp add: angle_def field_simps)

text \<open>
  The layout in exact arithmetic: the \<open>i\<close>-th node of the list is placed at the angle
  \<open>2\<pi>i/N\<close> on the circle around the centre of the canvas whose radius is 0.35 times the
  shorter side; the places of different nodes differ, every place is at the distance of
  the radius from the centre, and the angles of consecutive nodes differ by \<open>2\<pi>/N\<close>. The
  numbers that the code stores are doubles and agree with these up to rounding.
\<close>

lemma exact_layout_circle:
  assumes "i < length (collect_nodes es)"
  shows "let nodes = collect_nodes es; N = length nodes; P = place_nodes nodes 0 N P0 in
     P (nodes ! i) =
       Some \<lparr>pos_x = canvas_width / 2 +
                      min canvas_width canvas_height * 0.35 * cos (2 * pi * real i / real N),
             pos_y = canvas_height / 2 +
                      min canvas_width canvas_height * 0.35 * sin (2 * pi * real i / real N)\<rparr>
     \<and> (\<forall>j<N. j \<noteq> i \<longrightarrow> P (nodes ! j) \<noteq> P (nodes ! i))
     \<and> (\<forall>j<N. \<exists>p. P (nodes ! j) = Some p \<and>
            distance_to (canvas_width / 2) (canvas_height / 2) p =
              min canvas_width canvas_height * 0.35)
     \<and> angle (Suc i) N - angle i N = 2 * pi / real N"
proof -
  define nodes where "nodes = collect_nodes es"
  define N where "N = length nodes"
  define P where "P = place_nodes nodes 0 N P0"
  have d: "distinct nodes" by (simp add: nodes_def distinct_collect_nodes)
  have iN: "i < N" using assms by (simp add: N_def nodes_def)
  have pos: "P (nodes ! j) = Some (node_position j N)" if "j < N" for j
    using that d place_nodes_nth[of nodes j 0 N P0] by (simp add: P_def N_def)
  have a: "P (nodes ! i) =
       Some \<lparr>pos_x = canvas_width / 2 +
                      min canvas_width canvas_height * 0.35 * cos (2 * pi * real i / real N),
             pos_y = canvas_height / 2 +
                      min canvas_width canvas_height * 0.35 * sin (2 * pi * real i / real N)\<rparr>"
    using pos[OF iN] by (simp add: node_position_def centerX_def centerY_def radius_def angle_def)
  have b: "\<forall>j<N. j \<noteq> i \<longrightarrow> P (nodes ! j) \<noteq> P (nodes ! i)"
    using pos iN node_position_inj[of _ N i] by auto
  have c: "\<forall>j<N. \<exists>p. P (nodes ! j) = Some p \<and>
            distance_to (canvas_width / 2) (canvas_height / 2) p =
              min canvas_width canvas_height * 0.35"
    using pos node_position_on_circle[of _ N] by (simp add: centerX_def centerY_def radius_def)
  have e: "angle (Suc i) N - angle i N = 2 * pi / real N"
    using iN by (intro angle_spacing) simp
  show ?thesis
    unfolding Let_def using a b c e by (simp add: nodes_def N_def P_def)
qed

section \<open>Hover resolution\<close>

lemma hit_finite: "hit (Some (x, y)) p \<longleftrightarrow> (x - pos_x p)\<^sup>2 + (y - pos_y p)\<^sup>2 \<le> 400"
proof -
  have "sqrt ((x - pos_x p)\<^sup>2 + (y - pos_y p)\<^sup>2) \<le> sqrt 400 \<longleftrightarrow>
        (x - pos_x p)\<^sup>2 + (y - pos_y p)\<^sup>2 \<le> 400"
    by (rule real_sqrt_le_iff)
  moreover have "sqrt 400 = 20"
    using real_sqrt_abs[of 20] by simp
  ultimately show ?thesis by (simp add: hit_def distance_to_def)
qed

lemma hit_centre: "hit (Some (pos_x p, pos_y p)) p"
  by (simp add: hit_finite)

lemma last_hit_Nil: "last_hit P xy [] = None"
  by (simp add: last_hit_def)

lemma last_hit_Cons:
  "last_hit P xy (n # ns) =
     (case last_hit P xy ns of
        Some m \<Rightarrow> Some m
      | None \<Rightarrow> (case P n of None \<Rightarrow> None | Some pos \<Rightarrow> if hit xy pos then Some n else None))"
  by (auto simp: last_hit_def split: list.splits option.splits)

lemma find_node_last_hit:
  "list_all (\<lambda>n. P n \<noteq> None) nodes \<Longrightarrow>
   find_node P xy nodes f = Inr (case last_hit P xy nodes of None \<Rightarrow> f | Some m \<Rightarrow> Some m)"
proof (induction nodes arbitrary: f)
  case Nil
  show ?case by (simp add: last_hit_Nil)
next
  case (Cons n ns)
  from Cons.prems obtain pos where pos: "P n = Some pos" by auto
  have rest: "list_all (\<lambda>n. P n \<noteq> None) ns" using Cons.prems by simp
  show ?case
    using Cons.IH[OF rest] pos by (simp add: last_hit_Cons split: option.splits)
qed

lemma last_hit_None_iff:
  "last_hit P xy nodes = None \<longleftrightarrow> (\<forall>n\<in>set nodes. \<forall>p. P n = Some p \<longrightarrow> \<not> hit xy p)"
  by (induction nodes) (auto simp: last_hit_Nil last_hit_Cons split: option.splits)

lemma last_hit_append:
  "last_hit P xy (as @ bs) =
     (case last_hit P xy bs of Some m \<Rightarrow> Some m | None \<Rightarrow> last_hit P xy as)"
  by (induction as) (auto simp: last_hit_Nil last_hit_Cons split: option.splits)

lemma last_hit_Some_iff:
  "last_hit P xy nodes = Some m \<longleftrightarrow>
     (\<exists>as bs p. nodes = as @ m # bs \<and> P m = Some p \<and> hit xy p \<and>
        (\<forall>b\<in>set bs. \<forall>q. P b = Some q \<longrightarrow> \<not> hit xy q))"
proof
  show "last_hit P xy nodes = Some m \<Longrightarrow>
     \<exists>as bs p. nodes = as @ m # bs \<and> P m = Some p \<and> hit xy p \<and>
        (\<forall>b\<in>set bs. \<forall>q. P b = Some q \<longrightarrow> \<not> hit xy q)"
  proof (induction nodes)
    case Nil
    then show ?case by (simp add: last_hit_Nil)
  next
    case (Cons n ns)
    show ?case
    proof (cases "last_hit P xy ns")
      case None
      then have none: "\<forall>b\<in>set ns. \<forall>q. P b = Some q \<longrightarrow> \<not> hit xy q"
        by (simp add: last_hit_None_iff)
      from Cons.prems None obtain p where "P n = Some p" "hit xy p" "m = n"
        by (auto simp: last_hit_Cons split: option.splits if_splits)
      then have "n # ns = [] @ m # ns \<and> P m = Some p \<and> hit xy p" by simp
      then show ?thesis using none by blast
    next
      case (Some m')
      then have "last_hit P xy ns = Some m" using Cons.prems by (simp add: last_hit_Cons)
      from Cons.IH[OF this] obtain as bs p where
        "ns = as @ m # bs" "P m = Some p" "hit xy p"
        "\<forall>b\<in>set bs. \<forall>q. P b = Some q \<longrightarrow> \<not> hit xy q" by blast
      then have "n # ns = (n # as) @ m # bs \<and> P m = Some p \<and> hit xy p \<and>
        (\<forall>b\<in>set bs. \<forall>q. P b = Some q \<longrightarrow> \<not> hit xy q)" by simp
      then show ?thesis by blast
    qed
  qed
next
  assume "\<exists>as bs p. nodes = as @ m # bs \<and> P m = Some p \<and> hit xy p \<and>
        (\<forall>b\<in>set bs. \<forall>q. P b = Some q \<longrightarrow> \<not> hit xy q)"
  then obtain as bs p where n: "nodes = as @ m # bs" and p: "P m = Some p" "hit xy p"
    and bs: "\<forall>b\<in>set bs. \<forall>q. P b = Some q \<longrightarrow> \<not> hit xy q" by blast
  from bs have "last_hit P xy bs = None" by (simp add: last_hit_None_iff)
  then have "last_hit P xy (m # bs) = Some m" using p by (simp add: last_hit_Cons)
  then show "last_hit P xy nodes = Some m" by (simp add: n last_hit_append)
qed

text \<open>
  Claim C1. The pointer of a pointer-move event is converted to canvas coordinates by the
  ratios of the intrinsic to the displayed size. Where every node of the list has a
  position, the hover resolution returns the last node, in the order of the list, whose
  position is within the Euclidean distance 20 of the pointer: the node found is a hit and
  no node after it in the list is one. It returns no node when no node is a hit. A pointer
  exactly at the centre of a node is a hit for that node, so a node is found then: that
  node, when no node later in the list is a hit as well.
\<close>

theorem hover_resolution:
  assumes "list_all (\<lambda>n. P n \<noteq> None) nodes"
  shows "find_node P (surface_coords r ev) nodes None = Inr (last_hit P (surface_coords r ev) nodes)
    \<and> (rect_width r \<noteq> 0 \<and> rect_height r \<noteq> 0 \<longrightarrow>
         surface_coords r ev =
           Some ((clientX ev - rect_left r) * (canvas_width / rect_width r),
                 (clientY ev - rect_top r) * (canvas_height / rect_height r)))
    \<and> (\<forall>x y p. hit (Some (x, y)) p \<longleftrightarrow> sqrt ((x - pos_x p)\<^sup>2 + (y - pos_y p)\<^sup>2) \<le> 20)
    \<and> (\<forall>m. find_node P (surface_coords r ev) nodes None = Inr (Some m) \<longleftrightarrow>
         (\<exists>as bs p. nodes = as @ m # bs \<and> P m = Some p \<and> hit (surface_coords r ev) p \<and>
            (\<forall>b\<in>set bs. \<forall>q. P b = Some q \<longrightarrow> \<not> hit (surface_coords r ev) q)))
    \<and> (find_node P (surface_coords r ev) nodes None = Inr None \<longleftrightarrow>
         (\<forall>n\<in>set nodes. \<forall>p. P n = Some p \<longrightarrow> \<not> hit (surface_coords r ev) p))
    \<and> (\<forall>n\<in>set nodes. \<forall>p. P n = Some p \<and> surface_coords r ev = Some (pos_x p, pos_y p) \<longrightarrow>
         hit (surface_coords r ev) p \<and>
         (\<exists>m. find_node P (surface_coords r ev) nodes None = Inr (Some m)))
    \<and> (\<forall>as n bs p. nodes = as @ n # bs \<and> P n = Some p \<and>
           surface_coords r ev = Some (pos_x p, pos_y p) \<and>
           (\<forall>b\<in>set bs. \<forall>q. P b = Some q \<longrightarrow> \<not> hit (surface_coords r ev) q) \<longrightarrow>
         find_node P (surface_coords r ev) nodes None = Inr (Some n))"
proof -
  let ?xy = "surface_coords r ev"
  have a: "find_node P ?xy nodes None = Inr (last_hit P ?xy nodes)"
    using find_node_last_hit[OF assms, of ?xy None] by (simp split: option.splits)
  have b: "rect_width r \<noteq> 0 \<and> rect_height r \<noteq> 0 \<longrightarrow>
         ?xy = Some ((clientX ev - rect_left r) * (canvas_width / rect_width r),
                     (clientY ev - rect_top r) * (canvas_height / rect_height r))"
    by (simp add: surface_coords_def)
  have c: "\<forall>x y p. hit (Some (x, y)) p \<longleftrightarrow> sqrt ((x - pos_x p)\<^sup>2 + (y - pos_y p)\<^sup>2) \<le> 20"
    by (simp add: hit_def distance_to_def)
  have d: "\<forall>m. find_node P ?xy nodes None = Inr (Some m) \<longleftrightarrow>
         (\<exists>as bs p. nodes = as @ m # bs \<and> P m = Some p \<and> hit ?xy p \<and>
            (\<forall>b\<in>set bs. \<forall>q. P b = Some q \<longrightarrow> \<not> hit ?xy q))"
    using last_hit_Some_iff[of P ?xy nodes] by (simp add: a)
  have e: "find_node P ?xy nodes None = Inr None \<longleftrightarrow>
         (\<forall>n\<in>set nodes. \<forall>p. P n = Some p \<longrightarrow> \<not> hit ?xy p)"
    using last_hit_None_iff[of P ?xy nodes] by (simp add: a)
  have f: "\<forall>n\<in>set nodes. \<forall>p. P n = Some p \<and> ?xy = Some (pos_x p, pos_y p) \<longrightarrow>
         hit ?xy p \<and> (\<exists>m. find_node P ?xy nodes None = Inr (Some m))"
  proof (intro ballI allI impI)
    fix n p
    assume n: "n \<in> set nodes" and p: "P n = Some p \<and> ?xy = Some (pos_x p, pos_y p)"
    then have h: "hit ?xy p" by (simp add: hit_centre)
    then have "last_hit P ?xy nodes \<noteq> None" using n p by (auto simp: last_hit_None_iff)
    then show "hit ?xy p \<and> (\<exists>m. find_node P ?xy nodes None = Inr (Some m))"
      using h by (auto simp: a)
  qed
  have g: "\<forall>as n bs p. nodes = as @ n # bs \<and> P n = Some p \<and>
           ?xy = Some (pos_x p, pos_y p) \<and>
           (\<forall>b\<in>set bs. \<forall>q. P b = Some q \<longrightarrow> \<not> hit ?xy q) \<longrightarrow>
         find_node P ?xy nodes None = Inr (Some n)"
  proof (intro allI impI)
    fix as n bs p
    assume h: "nodes = as @ n # bs \<and> P n = Some p \<and> ?xy = Some (pos_x p, pos_y p) \<and>
           (\<forall>b\<in>set bs. \<forall>q. P b = Some q \<longrightarrow> \<not> hit ?xy q)"
    then have "hit ?xy p" by (simp add: hit_centre)
    with h have "\<exists>as bs p. nodes = as @ n # bs \<and> P n = Some p \<and> hit ?xy p \<and>
            (\<forall>b\<in>set bs. \<forall>q. P b = Some q \<longrightarrow> \<not> hit ?xy q)" by blast
    then show "find_node P ?xy nodes None = Inr (Some n)" using d by blast
  qed
  show ?thesis using a b c d e f g by blast
qed

text \<open>
  The pointer over the centre of A, on a canvas displayed at half its size: A is found,
  and B, at the distance 350, is not.
\<close>

theorem hover_resolution_witness:
  "list_all (\<lambda>n. positions_AB n \<noteq> None) [''A'', ''B'']
   \<and> surface_coords rect_half pointer_at_A = Some (575, 250)
   \<and> find_node positions_AB (surface_coords rect_half pointer_at_A) [''A'', ''B''] None =
       Inr (Some ''A'')"
proof -
  have h: "list_all (\<lambda>n. positions_AB n \<noteq> None) [''A'', ''B'']"
    by (simp add: positions_AB_def)
  have xy: "surface_coords rect_half pointer_at_A = Some (575, 250)"
    by (simp add: surface_coords_def rect_half_def pointer_at_A_def canvas_width_def
        canvas_height_def)
  have l: "last_hit positions_AB (Some (575, 250)) [''A'', ''B''] = Some ''A''"
    by (simp add: last_hit_def positions_AB_def hit_finite)
  from hover_resolution[OF h, of rect_half pointer_at_A]
  have "find_node positions_AB (surface_coords rect_half pointer_at_A) [''A'', ''B''] None =
        Inr (last_hit positions_AB (surface_coords rect_half pointer_at_A) [''A'', ''B''])"
    by (rule conjunct1)
  then have "find_node positions_AB (surface_coords rect_half pointer_at_A) [''A'', ''B''] None =
        Inr (Some ''A'')"
    unfolding xy l .
  with h xy show ?thesis by (intro conjI)
qed

section \<open>Painting and the handlers never fail on a built graph\<close>

lemma draw_node_ok: "P n \<noteq> None \<Longrightarrow> \<exists>c'. draw_node env rs P h n c = Inr c'"
  by (auto simp: draw_node_def Let_def)

lemma draw_nodes_ok:
  "list_all (\<lambda>n. P n \<noteq> None) ns \<Longrightarrow> \<exists>c'. draw_nodes env rs P h ns c = Inr c'"
proof (induction ns arbitrary: c)
  case Nil
  show ?case by simp
next
  case (Cons n ns)
  then obtain c1 where "draw_node env rs P h n c = Inr c1"
    using draw_node_ok[of P n env rs h c] by auto
  then show ?case using Cons by simp
qed

lemma redrawGraph_ok:
  assumes "graphCtx g \<noteq> None" "list_all (\<lambda>n. graphPositions g n \<noteq> None) (graphNodeList g)"
  shows "\<exists>c'. redrawGraph env g = Inr (g\<lparr>graphCtx := Some c', repaints := repaints g + 1\<rparr>)"
proof -
  from assms(1) obtain c where c: "graphCtx g = Some c" by auto
  let ?c1 = "fold (draw_edge env (graphPositions g) (hoveredNode g)) (mstEdges g)
               (clearRect 0 0 canvas_width canvas_height c)"
  obtain c2 where "draw_nodes env (recommendations g) (graphPositions g) (hoveredNode g)
                     (graphNodeList g) ?c1 = Inr c2"
    using draw_nodes_ok[OF assms(2)] by blast
  then have "redrawGraph env g =
      Inr (g\<lparr>graphCtx := Some (draw_legend c2), repaints := repaints g + 1\<rparr>)"
    by (simp add: redrawGraph_def c Let_def)
  then show ?thesis by blast
qed

lemma redrawGraph_built:
  assumes "built g"
  shows "\<exists>c'. redrawGraph env g = Inr (g\<lparr>graphCtx := Some c', repaints := repaints g + 1\<rparr>)"
  using assms redrawGraph_ok by (simp add: built_def)

lemma built_update [simp]:
  "built (g\<lparr>graphCtx := Some c', repaints := k\<rparr>) = (graphNodeList g \<noteq> [] \<and>
     list_all (\<lambda>n. graphPositions g n \<noteq> None) (graphNodeList g))"
  by (simp add: built_def)

lemma on_mousemove_built:
  assumes "built g"
  shows "\<exists>c'. on_mousemove env g r ev =
     Inr (let found = last_hit (graphPositions g) (surface_coords r ev) (graphNodeList g)
          in if found \<noteq> hoveredNode g
             then g\<lparr>hoveredNode := found, graphCtx := Some c', repaints := repaints g + 1\<rparr>
             else g)"
proof -
  let ?found = "last_hit (graphPositions g) (surface_coords r ev) (graphNodeList g)"
  have f: "find_node (graphPositions g) (surface_coords r ev) (graphNodeList g) None = Inr ?found"
    using assms find_node_last_hit[of "graphPositions g" "graphNodeList g" "surface_coords r ev" None]
    by (simp add: built_def split: option.splits)
  show ?thesis
  proof (cases "?found = hoveredNode g")
    case True
    then show ?thesis by (simp add: on_mousemove_def f)
  next
    case False
    have "built (g\<lparr>hoveredNode := ?found\<rparr>)" using assms by (simp add: built_def)
    from redrawGraph_built[OF this, of env] obtain c' where
      "redrawGraph env (g\<lparr>hoveredNode := ?found\<rparr>) =
         Inr (g\<lparr>hoveredNode := ?found, graphCtx := Some c', repaints := repaints g + 1\<rparr>)"
      by auto
    then show ?thesis using False by (auto simp: on_mousemove_def f Let_def)
  qed
qed

lemma on_mouseleave_built:
  assumes "built g"
  shows "\<exists>c'. on_mouseleave env g =
     Inr (g\<lparr>hoveredNode := None, graphCtx := Some c', repaints := repaints g + 1\<rparr>)"
proof -
  have "built (g\<lparr>hoveredNode := None\<rparr>)" using assms by (simp add: built_def)
  from redrawGraph_built[OF this, of env] show ?thesis by (simp add: on_mouseleave_def)
qed

lemma dispatch_built:
  assumes "built g"
  shows "\<exists>g'. dispatch env g e = Inr g' \<and> built g' \<and> graphNodeList g' = graphNodeList g
           \<and> graphPositions g' = graphPositions g"
proof (cases "listeners g")
  case False
  then show ?thesis using assms by (simp add: dispatch_def)
next
  case True
  show ?thesis
  proof (cases e)
    case (MouseMove r ev)
    from on_mousemove_built[OF assms, of env r ev] obtain c' where
      "on_mousemove env g r ev =
     Inr (let found = last_hit (graphPositions g) (surface_coords r ev) (graphNodeList g)
          in if found \<noteq> hoveredNode g
             then g\<lparr>hoveredNode := found, graphCtx := Some c', repaints := repaints g + 1\<rparr>
             else g)" by blast
    then show ?thesis using assms True MouseMove by (simp add: dispatch_def Let_def built_def)
  next
    case MouseLeave
    from on_mouseleave_built[OF assms, of env] obtain c' where
      "on_mouseleave env g =
         Inr (g\<lparr>hoveredNode := None, graphCtx := Some c', repaints := repaints g + 1\<rparr>)" by blast
    then show ?thesis using assms True MouseLeave by (simp add: dispatch_def built_def)
  next
    case Click
    then show ?thesis using assms True
      by (simp add: dispatch_def on_click_def built_def split: option.splits)
  qed
qed

lemma run_built:
  "built g \<Longrightarrow> \<exists>g'. run env g es = Inr g' \<and> built g' \<and> graphNodeList g' = graphNodeList g
           \<and> graphPositions g' = graphPositions g"
proof (induction es arbitrary: g)
  case Nil
  then show ?case by simp
next
  case (Cons e es)
  from dispatch_built[OF Cons.prems, of env e] obtain g1 where
    g1: "dispatch env g e = Inr g1" "built g1" "graphNodeList g1 = graphNodeList g"
      "graphPositions g1 = graphPositions g" by blast
  from Cons.IH[OF g1(2)] show ?case using g1 by auto
qed

lemma drawMSTGraph_builds:
  assumes "placeholder g" "mstEdges g \<noteq> []"
  shows "\<exists>c'. drawMSTGraph env g =
     Inr (g\<lparr>graphCtx := Some c',
            graphNodeList := collect_nodes (mstEdges g),
            graphPositions := place_nodes (collect_nodes (mstEdges g)) 0
               (length (collect_nodes (mstEdges g))) (graphPositions g),
            listeners := True,
            repaints := repaints g + 1\<rparr>)"
proof -
  let ?nodes = "collect_nodes (mstEdges g)"
  let ?g1 = "g\<lparr>graphCtx := Some new_context, graphNodeList := ?nodes,
               graphPositions := place_nodes ?nodes 0 (length ?nodes) (graphPositions g),
               listeners := True\<rparr>"
  have "list_all (\<lambda>n. graphPositions ?g1 n \<noteq> None) (graphNodeList ?g1)"
    using place_nodes_defined[of _ ?nodes 0 "length ?nodes" "graphPositions g"]
    by (simp add: list_all_iff)
  moreover have "graphCtx ?g1 \<noteq> None" by simp
  ultimately obtain c' where
    "redrawGraph env ?g1 = Inr (?g1\<lparr>graphCtx := Some c', repaints := repaints ?g1 + 1\<rparr>)"
    using redrawGraph_ok[of ?g1 env] by blast
  then have "drawMSTGraph env g =
     Inr (g\<lparr>graphCtx := Some c',
            graphNodeList := collect_nodes (mstEdges g),
            graphPositions := place_nodes (collect_nodes (mstEdges g)) 0
               (length (collect_nodes (mstEdges g))) (graphPositions g),
            listeners := True,
            repaints := repaints g + 1\<rparr>)"
    using assms by (simp add: drawMSTGraph_def Let_def)
  then show ?thesis by blast
qed

lemma drawMSTGraph_built:
  assumes "placeholder g" "mstEdges g \<noteq> []" "drawMSTGraph env g = Inr g'"
  shows "built g'"
  using drawMSTGraph_builds[OF assms(1,2), of env] assms(2,3)
    place_nodes_defined[of _ "collect_nodes (mstEdges g)" 0
      "length (collect_nodes (mstEdges g))" "graphPositions g"]
  by (auto simp: built_def list_all_iff collect_nodes_nonempty)

lemma find_node_at_A:
  "find_node positions_AB (surface_coords rect_half pointer_at_A) [''A'', ''B''] None =
     Inr (Some ''A'')"
  by (simp add: positions_AB_def surface_coords_def rect_half_def pointer_at_A_def
      canvas_width_def canvas_height_def hit_finite)

lemma built_view_AB: "built view_AB"
  by (simp add: built_def view_AB_def positions_AB_def)

text \<open>
  Claim C10. When the graph has been built (the placeholder exists and the edge list is
  not empty), every node of the node list has a position in the position map, so the loop
  of the pointer-move handler never reads a missing position: the hit test returns a
  result for every pointer, the handler returns for every event, and this stays so after
  any sequence of events.
\<close>

theorem hit_test_total:
  assumes "placeholder g" "mstEdges g \<noteq> []"
  shows "\<exists>g'. drawMSTGraph env g = Inr g'
    \<and> graphNodeList g' = collect_nodes (mstEdges g)
    \<and> (\<forall>n\<in>set (graphNodeList g'). graphPositions g' n \<noteq> None)
    \<and> (\<forall>xy. \<exists>found. find_node (graphPositions g') xy (graphNodeList g') None = Inr found)
    \<and> (\<forall>r ev. \<exists>g''. on_mousemove env g' r ev = Inr g'')
    \<and> (\<forall>es. \<exists>g''. run env g' es = Inr g'' \<and>
           (\<forall>n\<in>set (graphNodeList g''). graphPositions g'' n \<noteq> None))"
proof -
  from drawMSTGraph_builds[OF assms, of env] obtain g' c' where
    g': "drawMSTGraph env g = Inr g'"
    and g'_def: "g' = g\<lparr>graphCtx := Some c',
            graphNodeList := collect_nodes (mstEdges g),
            graphPositions := place_nodes (collect_nodes (mstEdges g)) 0
               (length (collect_nodes (mstEdges g))) (graphPositions g),
            listeners := True,
            repaints := repaints g + 1\<rparr>"
    by blast
  have b: "built g'" using drawMSTGraph_built[OF assms g'] .
  have nodes: "graphNodeList g' = collect_nodes (mstEdges g)" by (simp add: g'_def)
  have all: "list_all (\<lambda>n. graphPositions g' n \<noteq> None) (graphNodeList g')"
    using b by (simp add: built_def)
  then have pos: "\<forall>n\<in>set (graphNodeList g'). graphPositions g' n \<noteq> None"
    by (simp add: list_all_iff)
  have find: "\<forall>xy. \<exists>found. find_node (graphPositions g') xy (graphNodeList g') None = Inr found"
    using find_node_last_hit[OF all] by blast
  have move: "\<forall>r ev. \<exists>g''. on_mousemove env g' r ev = Inr g''"
    using on_mousemove_built[OF b, of env] by blast
  have runs: "\<forall>es. \<exists>g''. run env g' es = Inr g'' \<and>
           (\<forall>n\<in>set (graphNodeList g''). graphPositions g'' n \<noteq> None)"
  proof
    fix es
    from run_built[OF b, of env es] obtain g'' where
      "run env g' es = Inr g''" "built g''" by blast
    then show "\<exists>g''. run env g' es = Inr g'' \<and>
           (\<forall>n\<in>set (graphNodeList g''). graphPositions g'' n \<noteq> None)"
      by (auto simp: built_def list_all_iff)
  qed
  show ?thesis using g' nodes pos find move runs by blast
qed

text \<open>The graph of the one edge from A to B: it is built, and every pointer move returns.\<close>

theorem hit_test_total_witness:
  "placeholder (initial edges_AB [] True) \<and> mstEdges (initial edges_AB [] True) \<noteq> []
   \<and> (\<exists>g'. drawMSTGraph env6 (initial edges_AB [] True) = Inr g'
        \<and> graphNodeList g' = collect_nodes edges_AB
        \<and> (\<forall>r ev. \<exists>g''. on_mousemove env6 g' r ev = Inr g''))"
proof -
  have h1: "placeholder (initial edges_AB [] True)" by (simp add: initial_def)
  have h2: "mstEdges (initial edges_AB [] True) \<noteq> []" by (simp add: initial_def edges_AB_def)
  have e: "mstEdges (initial edges_AB [] True) = edges_AB" by (simp add: initial_def)
  from hit_test_total[OF h1 h2, of env6] obtain g' where
    "drawMSTGraph env6 (initial edges_AB [] True) = Inr g'"
    "graphNodeList g' = collect_nodes (mstEdges (initial edges_AB [] True))"
    "\<forall>r ev. \<exists>g''. on_mousemove env6 g' r ev = Inr g''"
    by blast
  then show ?thesis using h1 h2 unfolding e by blast
qed

text \<open>
  Claim C2. On a built graph, a pointer-move event invokes a repaint if and only if the
  node it resolves to differs from the current \<^verbatim>\<open>hoveredNode\<close>, which then becomes that
  node. A second pointer-move event that resolves to the same node (or, like the first, to
  none) invokes no repaint: the two events together invoke at most one.
\<close>

theorem repaint_iff_hover_changes:
  assumes "built g"
  shows "\<exists>found g'.
      find_node (graphPositions g) (surface_coords r ev) (graphNodeList g) None = Inr found
    \<and> on_mousemove env g r ev = Inr g'
    \<and> hoveredNode g' = found
    \<and> graphPositions g' = graphPositions g \<and> graphNodeList g' = graphNodeList g
    \<and> (repaints g' = repaints g + 1 \<longleftrightarrow> found \<noteq> hoveredNode g)
    \<and> (repaints g' = repaints g \<longleftrightarrow> found = hoveredNode g)
    \<and> (\<forall>r2 ev2.
         find_node (graphPositions g') (surface_coords r2 ev2) (graphNodeList g') None = Inr found
         \<longrightarrow> (\<exists>g''. on_mousemove env g' r2 ev2 = Inr g'' \<and> repaints g'' = repaints g'
                \<and> repaints g'' \<le> repaints g + 1))"
proof -
  let ?found = "last_hit (graphPositions g) (surface_coords r ev) (graphNodeList g)"
  have all: "list_all (\<lambda>n. graphPositions g n \<noteq> None) (graphNodeList g)"
    using assms by (simp add: built_def)
  have f: "find_node (graphPositions g) (surface_coords r ev) (graphNodeList g) None = Inr ?found"
    using find_node_last_hit[OF all, of "surface_coords r ev" None] by (simp split: option.splits)
  from on_mousemove_built[OF assms, of env r ev] obtain c' g' where
    m: "on_mousemove env g r ev = Inr g'"
    and g': "g' = (if ?found \<noteq> hoveredNode g
             then g\<lparr>hoveredNode := ?found, graphCtx := Some c', repaints := repaints g + 1\<rparr>
             else g)"
    by (auto simp: Let_def)
  have h: "hoveredNode g' = ?found" by (simp add: g')
  have same: "graphPositions g' = graphPositions g \<and> graphNodeList g' = graphNodeList g"
    by (simp add: g')
  have r1: "repaints g' = repaints g + 1 \<longleftrightarrow> ?found \<noteq> hoveredNode g" by (simp add: g')
  have r0: "repaints g' = repaints g \<longleftrightarrow> ?found = hoveredNode g" by (simp add: g')
  have le: "repaints g' \<le> repaints g + 1" by (simp add: g')
  have b': "built g'" using assms by (simp add: g' built_def)
  have second: "\<forall>r2 ev2.
         find_node (graphPositions g') (surface_coords r2 ev2) (graphNodeList g') None = Inr ?found
         \<longrightarrow> (\<exists>g''. on_mousemove env g' r2 ev2 = Inr g'' \<and> repaints g'' = repaints g'
                \<and> repaints g'' \<le> repaints g + 1)"
  proof (intro allI impI)
    fix r2 ev2
    assume "find_node (graphPositions g') (surface_coords r2 ev2) (graphNodeList g') None =
            Inr ?found"
    then have "on_mousemove env g' r2 ev2 = Inr g'"
      using h by (simp add: on_mousemove_def)
    then show "\<exists>g''. on_mousemove env g' r2 ev2 = Inr g'' \<and> repaints g'' = repaints g'
                \<and> repaints g'' \<le> repaints g + 1"
      using le by simp
  qed
  show ?thesis using f m h same r1 r0 second by blast
qed

text \<open>
  Two pointer moves over the centre of A on the view of A and B, which has been painted
  once: the first one repaints, the second one does not.
\<close>

theorem repaint_iff_hover_changes_witness:
  "built view_AB
   \<and> (\<exists>g'. on_mousemove env6 view_AB rect_half pointer_at_A = Inr g'
        \<and> hoveredNode g' = Some ''A'' \<and> repaints g' = 2
        \<and> (\<exists>g''. on_mousemove env6 g' rect_half pointer_at_A = Inr g'' \<and> repaints g'' = 2))"
proof -
  have fa: "find_node (graphPositions view_AB) (surface_coords rect_half pointer_at_A)
              (graphNodeList view_AB) None = Inr (Some ''A'')"
    using find_node_at_A by (simp add: view_AB_def)
  from repaint_iff_hover_changes[OF built_view_AB, of rect_half pointer_at_A env6]
  obtain found g' where
    f: "find_node (graphPositions view_AB) (surface_coords rect_half pointer_at_A)
          (graphNodeList view_AB) None = Inr found"
    and m: "on_mousemove env6 view_AB rect_half pointer_at_A = Inr g'"
    and h: "hoveredNode g' = found"
    and same: "graphPositions g' = graphPositions view_AB"
      "graphNodeList g' = graphNodeList view_AB"
    and r1: "repaints g' = repaints view_AB + 1 \<longleftrightarrow> found \<noteq> hoveredNode view_AB"
    and second: "\<forall>r2 ev2.
         find_node (graphPositions g') (surface_coords r2 ev2) (graphNodeList g') None = Inr found
         \<longrightarrow> (\<exists>g''. on_mousemove env6 g' r2 ev2 = Inr g'' \<and> repaints g'' = repaints g'
                \<and> repaints g'' \<le> repaints view_AB + 1)"
    by blast
  have found: "found = Some ''A''" using f fa by simp
  have rp: "repaints g' = 2" using r1 found by (simp add: view_AB_def)
  have "find_node (graphPositions g') (surface_coords rect_half pointer_at_A)
          (graphNodeList g') None = Inr found"
    using f same by simp
  with second obtain g'' where
    "on_mousemove env6 g' rect_half pointer_at_A = Inr g''" "repaints g'' = repaints g'"
    by blast
  then show ?thesis using built_view_AB m h found rp by auto
qed

section \<open>What is painted\<close>

lemma context_fields [simp]:
  "ds (set_fillStyle col c) = (ds c)\<lparr>fillStyle := col\<rparr>"
  "path (set_fillStyle col c) = path c"
  "stack (set_fillStyle col c) = stack c"
  "surface (set_fillStyle col c) = surface c"
  "ds (set_strokeStyle col c) = (ds c)\<lparr>strokeStyle := col\<rparr>"
  "path (set_strokeStyle col c) = path c"
  "stack (set_strokeStyle col c) = stack c"
  "surface (set_strokeStyle col c) = surface c"
  "ds (set_lineWidth w c) = (ds c)\<lparr>lineWidth := w\<rparr>"
  "path (set_lineWidth w c) = path c"
  "stack (set_lineWidth w c) = stack c"
  "surface (set_lineWidth w c) = surface c"
  "ds (set_font s c) = (ds c)\<lparr>font := s\<rparr>"
  "path (set_font s c) = path c"
  "stack (set_font s c) = stack c"
  "surface (set_font s c) = surface c"
  "ds (set_textAlign s c) = (ds c)\<lparr>textAlign := s\<rparr>"
  "path (set_textAlign s c) = path c"
  "stack (set_textAlign s c) = stack c"
  "surface (set_textAlign s c) = surface c"
  "ds (set_textBaseline s c) = (ds c)\<lparr>textBaseline := s\<rparr>"
  "path (set_textBaseline s c) = path c"
  "stack (set_textBaseline s c) = stack c"
  "surface (set_textBaseline s c) = surface c"
  "stack (save c) = ds c # stack c"
  "ds (save c) = ds c"
  "path (save c) = path c"
  "surface (save c) = surface c"
  "ds (restore c) = (case stack c of [] \<Rightarrow> ds c | s # ss \<Rightarrow> s)"
  "stack (restore c) = tl (stack c)"
  "path (restore c) = path c"
  "surface (restore c) = surface c"
  "path (beginPath c) = []"
  "ds (beginPath c) = ds c"
  "stack (beginPath c) = stack c"
  "surface (beginPath c) = surface c"
  "path (moveTo x y c) = path c @ [MoveTo x y]"
  "ds (moveTo x y c) = ds c"
  "stack (moveTo x y c) = stack c"
  "surface (moveTo x y c) = surface c"
  "path (lineTo x y c) = path c @ [LineTo x y]"
  "ds (lineTo x y c) = ds c"
  "stack (lineTo x y c) = stack c"
  "surface (lineTo x y c) = surface c"
  "path (arc x y r a0 a1 c) = path c @ [Arc x y r a0 a1]"
  "ds (arc x y r a0 a1 c) = ds c"
  "stack (arc x y r a0 a1 c) = stack c"
  "surface (arc x y r a0 a1 c) = surface c"
  "surface (stroke c) = surface c @ [Stroke (path c) (strokeStyle (ds c)) (lineWidth (ds c))]"
  "ds (stroke c) = ds c"
  "path (stroke c) = path c"
  "stack (stroke c) = stack c"
  "surface (fill c) = surface c @ [Fill (path c) (fillStyle (ds c))]"
  "ds (fill c) = ds c"
  "path (fill c) = path c"
  "stack (fill c) = stack c"
  "surface (fillRect x y w h c) = surface c @ [FillRect x y w h (fillStyle (ds c))]"
  "ds (fillRect x y w h c) = ds c"
  "path (fillRect x y w h c) = path c"
  "stack (fillRect x y w h c) = stack c"
  "surface (fillText t x y c) = surface c @
     [FillText t x y (fillStyle (ds c)) (font (ds c)) (textAlign (ds c)) (textBaseline (ds c))]"
  "ds (fillText t x y c) = ds c"
  "path (fillText t x y c) = path c"
  "stack (fillText t x y c) = stack c"
  by (simp_all add: set_fillStyle_def set_strokeStyle_def set_lineWidth_def set_font_def
      set_textAlign_def set_textBaseline_def save_def restore_def beginPath_def moveTo_def
      lineTo_def arc_def stroke_def fill_def fillRect_def fillText_def split: list.splits)

lemma draw_edge_surface:
  "surface (draw_edge env P h e c) = surface c @ edge_paints env P h e"
proof (cases "P (edge_u e)")
  case None
  then show ?thesis by (simp add: draw_edge_def edge_paints_def)
next
  case u: (Some u)
  show ?thesis
  proof (cases "P (edge_v e)")
    case None
    then show ?thesis using u by (simp add: draw_edge_def edge_paints_def)
  next
    case (Some v)
    then show ?thesis using u
      by (simp add: draw_edge_def draw_edge_label_def edge_paints_def Let_def)
  qed
qed

lemma fold_draw_edge_surface:
  "surface (fold (draw_edge env P h) es c) = surface c @ concat (map (edge_paints env P h) es)"
  by (induction es arbitrary: c) (simp_all add: draw_edge_surface)

lemma draw_node_surface:
  assumes "P n = Some pos"
  shows "\<exists>c'. draw_node env rs P h n c = Inr c' \<and> surface c' = surface c @ node_paints env rs h n pos
           \<and> textBaseline (ds c') = ''middle''"
proof (cases "h = Some n")
  case True
  show ?thesis
  proof (cases "find (\<lambda>s. ticker s = n) rs")
    case None
    then show ?thesis using assms True
      by (simp add: draw_node_def node_paints_def Let_def split del: if_split)
  next
    case (Some s)
    then show ?thesis using assms True
      by (simp add: draw_node_def draw_hover_info_def node_paints_def Let_def split del: if_split)
  qed
next
  case False
  show ?thesis
  proof (cases "find (\<lambda>s. ticker s = n) rs")
    case None
    then show ?thesis using assms False
      by (simp add: draw_node_def node_paints_def Let_def split del: if_split)
  next
    case (Some s)
    then show ?thesis using assms False
      by (simp add: draw_node_def node_paints_def Let_def split del: if_split)
  qed
qed

lemma draw_nodes_surface:
  assumes "list_all (\<lambda>n. P n \<noteq> None) ns"
  shows "\<exists>c'. draw_nodes env rs P h ns c = Inr c'
     \<and> surface c' = surface c @
         concat (map (\<lambda>n. case P n of None \<Rightarrow> [] | Some pos \<Rightarrow> node_paints env rs h n pos) ns)
     \<and> (ns \<noteq> [] \<longrightarrow> textBaseline (ds c') = ''middle'')"
  using assms
proof (induction ns arbitrary: c)
  case Nil
  show ?case by simp
next
  case (Cons n ns)
  from Cons.prems obtain pos where pos: "P n = Some pos" by auto
  from draw_node_surface[of P n pos env rs h c] pos obtain c1 where
    c1: "draw_node env rs P h n c = Inr c1" "surface c1 = surface c @ node_paints env rs h n pos"
      "textBaseline (ds c1) = ''middle''" by blast
  have rest: "list_all (\<lambda>n. P n \<noteq> None) ns" using Cons.prems by simp
  from Cons.IH[OF rest, of c1] obtain c2 where
    c2: "draw_nodes env rs P h ns c1 = Inr c2"
      "surface c2 = surface c1 @
         concat (map (\<lambda>n. case P n of None \<Rightarrow> [] | Some pos \<Rightarrow> node_paints env rs h n pos) ns)"
      "ns \<noteq> [] \<longrightarrow> textBaseline (ds c2) = ''middle''" by blast
  have base: "textBaseline (ds c2) = ''middle''"
  proof (cases ns)
    case Nil
    then show ?thesis using c2(1) c1(3) by simp
  next
    case (Cons a list)
    then show ?thesis using c2(3) by simp
  qed
  show ?case using c1 c2 pos base by simp
qed

lemma draw_legend_surface:
  "surface (draw_legend c) = surface c @ legend_paints (textBaseline (ds c))"
  by (simp add: draw_legend_def legend_paints_def Let_def)

lemma clearRect_full: "surface (clearRect 0 0 canvas_width canvas_height c) = []"
  by (simp add: clearRect_def)

lemma redrawGraph_scene:
  assumes "graphNodeList g \<noteq> []"
    and "list_all (\<lambda>n. graphPositions g n \<noteq> None) (graphNodeList g)"
  shows "\<exists>c'. redrawGraph env (g\<lparr>graphCtx := Some c\<rparr>) =
            Inr (g\<lparr>graphCtx := Some c', repaints := repaints g + 1\<rparr>)
          \<and> surface c' = scene env g"
proof -
  let ?c1 = "fold (draw_edge env (graphPositions g) (hoveredNode g)) (mstEdges g)
               (clearRect 0 0 canvas_width canvas_height c)"
  have s1: "surface ?c1 =
      concat (map (edge_paints env (graphPositions g) (hoveredNode g)) (mstEdges g))"
    by (simp add: fold_draw_edge_surface clearRect_full)
  from draw_nodes_surface[OF assms(2), of env "recommendations g" "hoveredNode g" ?c1]
  obtain c2 where c2: "draw_nodes env (recommendations g) (graphPositions g) (hoveredNode g)
                     (graphNodeList g) ?c1 = Inr c2"
    and s2: "surface c2 = surface ?c1 @
         concat (map (\<lambda>n. case graphPositions g n of None \<Rightarrow> []
                       | Some pos \<Rightarrow> node_paints env (recommendations g) (hoveredNode g) n pos)
                 (graphNodeList g))"
    and b2: "textBaseline (ds c2) = ''middle''"
    using assms(1) by blast
  have r: "redrawGraph env (g\<lparr>graphCtx := Some c\<rparr>) =
      Inr (g\<lparr>graphCtx := Some (draw_legend c2), repaints := repaints g + 1\<rparr>)"
    using c2 by (simp add: redrawGraph_def Let_def)
  have "surface (draw_legend c2) = scene env g"
    by (simp add: draw_legend_surface s2 s1 b2 scene_def)
  with r show ?thesis by blast
qed

lemma scene_cong: "scene env (g\<lparr>graphCtx := x, repaints := k\<rparr>) = scene env g"
  by (simp add: scene_def cong: option.case_cong)

text \<open>
  Claim C9. A repaint is a function of the model, the classifications and the interaction
  state: it first clears the whole surface, so on a built graph two repaints with the same
  model, recommendations and hovered node give the same rendered output whatever was on
  the surface (and whatever the styles of the context were) before, and a second repaint
  after the first leaves the output as it is.
\<close>

theorem repaint_idempotent:
  assumes "built g"
  shows "\<exists>g1 g2 g3 s1 s2 s3.
      redrawGraph env (g\<lparr>graphCtx := Some c1\<rparr>) = Inr g1 \<and> graphCtx g1 = Some s1
    \<and> redrawGraph env (g\<lparr>graphCtx := Some c2\<rparr>) = Inr g2 \<and> graphCtx g2 = Some s2
    \<and> surface s1 = surface s2
    \<and> redrawGraph env g1 = Inr g3 \<and> graphCtx g3 = Some s3 \<and> surface s3 = surface s1
    \<and> surface (clearRect 0 0 canvas_width canvas_height c1) = []"
proof -
  have ne: "graphNodeList g \<noteq> []"
    and all: "list_all (\<lambda>n. graphPositions g n \<noteq> None) (graphNodeList g)"
    using assms by (simp_all add: built_def)
  from redrawGraph_scene[OF ne all, of env c1] obtain s1 where
    r1: "redrawGraph env (g\<lparr>graphCtx := Some c1\<rparr>) =
           Inr (g\<lparr>graphCtx := Some s1, repaints := repaints g + 1\<rparr>)"
    and p1: "surface s1 = scene env g" by blast
  from redrawGraph_scene[OF ne all, of env c2] obtain s2 where
    r2: "redrawGraph env (g\<lparr>graphCtx := Some c2\<rparr>) =
           Inr (g\<lparr>graphCtx := Some s2, repaints := repaints g + 1\<rparr>)"
    and p2: "surface s2 = scene env g" by blast
  let ?g1 = "g\<lparr>graphCtx := Some s1, repaints := repaints g + 1\<rparr>"
  have ne1: "graphNodeList ?g1 \<noteq> []"
    and all1: "list_all (\<lambda>n. graphPositions ?g1 n \<noteq> None) (graphNodeList ?g1)"
    using ne all by simp_all
  from redrawGraph_scene[OF ne1 all1, of env s1] obtain s3 where
    r3: "redrawGraph env (?g1\<lparr>graphCtx := Some s1\<rparr>) =
           Inr (?g1\<lparr>graphCtx := Some s3, repaints := repaints ?g1 + 1\<rparr>)"
    and p3: "surface s3 = scene env ?g1" by blast
  have same: "?g1\<lparr>graphCtx := Some s1\<rparr> = ?g1" by simp
  have r3': "redrawGraph env ?g1 = Inr (?g1\<lparr>graphCtx := Some s3, repaints := repaints ?g1 + 1\<rparr>)"
    using r3 unfolding same .
  have p3': "surface s3 = surface s1" using p3 p1 by (simp add: scene_cong)
  have p12: "surface s1 = surface s2" using p1 p2 by simp
  have g1: "graphCtx ?g1 = Some s1" by simp
  have g2: "graphCtx (g\<lparr>graphCtx := Some s2, repaints := repaints g + 1\<rparr>) = Some s2" by simp
  have g3: "graphCtx (?g1\<lparr>graphCtx := Some s3, repaints := repaints ?g1 + 1\<rparr>) = Some s3" by simp
  show ?thesis using r1 g1 r2 g2 p12 r3' g3 p3' clearRect_full by blast
qed

text \<open>
  The view of A and B repainted on a new context and on a context with paint and other
  styles on it: the output is the same, and a further repaint does not change it.
\<close>

theorem repaint_idempotent_witness:
  "built view_AB
   \<and> (\<exists>g1 g2 g3 s1 s2 s3.
      redrawGraph env6 (view_AB\<lparr>graphCtx := Some new_context\<rparr>) = Inr g1 \<and> graphCtx g1 = Some s1
    \<and> redrawGraph env6 (view_AB\<lparr>graphCtx := Some used_context\<rparr>) = Inr g2 \<and> graphCtx g2 = Some s2
    \<and> surface s1 = surface s2
    \<and> redrawGraph env6 g1 = Inr g3 \<and> graphCtx g3 = Some s3 \<and> surface s3 = surface s1
    \<and> surface (clearRect 0 0 canvas_width canvas_height new_context) = [])"
  using built_view_AB repaint_idempotent[OF built_view_AB, of env6 new_context used_context]
  by (rule conjI)

section \<open>The empty edge list\<close>

lemma run_no_listeners: "\<not> listeners g \<Longrightarrow> run env g evs = Inr g"
  by (induction evs) (simp_all add: dispatch_def)

text \<open>
  Claim C8. With an empty edge list the graph component returns at once and without an
  error: the state is left as it is, so no canvas is made, nothing is painted and no
  handler is registered, and later events change nothing. The node list of an empty edge
  list is empty.
\<close>

theorem empty_edge_list_draws_nothing:
  assumes "mstEdges g = []"
  shows "drawMSTGraph env g = Inr g \<and> collect_nodes (mstEdges g) = []
    \<and> (\<not> listeners g \<longrightarrow> (\<forall>evs. run env g evs = Inr g))"
  using assms by (simp add: drawMSTGraph_def collect_nodes_def run_no_listeners)

text \<open>The state after loading the script with no edges: no context, no nodes, no paint.\<close>

theorem empty_edge_list_draws_nothing_witness:
  "mstEdges (initial [] [] True) = []
   \<and> drawMSTGraph env6 (initial [] [] True) = Inr (initial [] [] True)
   \<and> graphCtx (initial [] [] True) = None \<and> graphNodeList (initial [] [] True) = []
   \<and> repaints (initial [] [] True) = 0
   \<and> run env6 (initial [] [] True) [MouseMove rect_full pointer_first_node, Click] =
       Inr (initial [] [] True)"
proof -
  have h: "mstEdges (initial [] [] True) = []" by (simp add: initial_def)
  have l: "\<not> listeners (initial [] [] True)" by (simp add: initial_def)
  from empty_edge_list_draws_nothing[OF h, of env6]
  have d: "drawMSTGraph env6 (initial [] [] True) = Inr (initial [] [] True)"
    and "\<forall>evs. run env6 (initial [] [] True) evs = Inr (initial [] [] True)"
    using l by simp_all
  then have r: "run env6 (initial [] [] True) [MouseMove rect_full pointer_first_node, Click] =
       Inr (initial [] [] True)" by blast
  have i: "graphCtx (initial [] [] True) = None \<and> graphNodeList (initial [] [] True) = []
   \<and> repaints (initial [] [] True) = 0" by (simp add: initial_def)
  show ?thesis using h d i r by blast
qed

section \<open>A ticker that is the empty string\<close>

lemma on_mousemove_scene:
  assumes "built g"
    and "last_hit (graphPositions g) (surface_coords r ev) (graphNodeList g) = found"
    and "found \<noteq> hoveredNode g"
  shows "\<exists>c'. on_mousemove env g r ev =
            Inr (g\<lparr>hoveredNode := found, graphCtx := Some c', repaints := repaints g + 1\<rparr>)
          \<and> surface c' = scene env (g\<lparr>hoveredNode := found\<rparr>)"
proof -
  have all: "list_all (\<lambda>n. graphPositions g n \<noteq> None) (graphNodeList g)"
    and ne: "graphNodeList g \<noteq> []"
    using assms(1) by (simp_all add: built_def)
  from assms(1) obtain c where c: "graphCtx g = Some c" by (auto simp: built_def)
  have f: "find_node (graphPositions g) (surface_coords r ev) (graphNodeList g) None = Inr found"
    using find_node_last_hit[OF all, of "surface_coords r ev" None] assms(2)
    by (simp split: option.splits)
  let ?g = "g\<lparr>hoveredNode := found\<rparr>"
  have ne': "graphNodeList ?g \<noteq> []"
    and all': "list_all (\<lambda>n. graphPositions ?g n \<noteq> None) (graphNodeList ?g)"
    using ne all by simp_all
  from redrawGraph_scene[OF ne' all', of env c] obtain c' where
    r: "redrawGraph env (?g\<lparr>graphCtx := Some c\<rparr>) =
          Inr (?g\<lparr>graphCtx := Some c', repaints := repaints ?g + 1\<rparr>)"
    and s: "surface c' = scene env ?g" by blast
  have same: "?g\<lparr>graphCtx := Some c\<rparr> = ?g" using c by simp
  have "on_mousemove env g r ev = Inr (?g\<lparr>graphCtx := Some c', repaints := repaints ?g + 1\<rparr>)"
    using r assms(3) unfolding same by (simp add: on_mousemove_def f)
  then show ?thesis using s by auto
qed

lemma nodes_empty_ticker: "collect_nodes edges_empty_ticker = [[], ''AAPL'']"
  by (simp add: edges_empty_ticker_def collect_nodes_def set_add_def)

lemma node_position_first: "node_position 0 (Suc (Suc 0)) = \<lparr>pos_x = 575, pos_y = 250\<rparr>"
  by (simp add: node_position_def angle_def centerX_def centerY_def radius_def
      canvas_width_def canvas_height_def)

lemma node_position_second:
  "node_position (Suc 0) (Suc (Suc 0)) = \<lparr>pos_x = 225, pos_y = 250\<rparr>"
  by (simp add: node_position_def angle_def centerX_def centerY_def radius_def
      canvas_width_def canvas_height_def)

lemma coords_first_node: "surface_coords rect_full pointer_first_node = Some (575, 250)"
  by (simp add: surface_coords_def rect_full_def pointer_first_node_def canvas_width_def
      canvas_height_def)

text \<open>
  The graph of the edge list with the empty ticker, after it is drawn and the pointer has
  moved over the first node: the hovered node is the empty string.
\<close>

lemma empty_ticker_hovered:
  "\<exists>c. session_empty_ticker [MouseMove rect_full pointer_first_node] =
     Inr \<lparr>placeholder = True, mstEdges = edges_empty_ticker, recommendations = [],
          graphCtx = Some c,
          graphPositions = [[] \<mapsto> \<lparr>pos_x = 575, pos_y = 250\<rparr>,
                            ''AAPL'' \<mapsto> \<lparr>pos_x = 225, pos_y = 250\<rparr>],
          graphNodeList = [[], ''AAPL''], hoveredNode = Some [],
          listeners = True, repaints = 2, selected = []\<rparr>
     \<and> surface c =
         scene env6 \<lparr>placeholder = True, mstEdges = edges_empty_ticker, recommendations = [],
          graphCtx = None,
          graphPositions = [[] \<mapsto> \<lparr>pos_x = 575, pos_y = 250\<rparr>,
                            ''AAPL'' \<mapsto> \<lparr>pos_x = 225, pos_y = 250\<rparr>],
          graphNodeList = [[], ''AAPL''], hoveredNode = Some [],
          listeners = True, repaints = 0, selected = []\<rparr>"
proof -
  let ?g0 = "initial edges_empty_ticker [] True"
  let ?P = "[[] \<mapsto> \<lparr>pos_x = 575, pos_y = 250\<rparr>, ''AAPL'' \<mapsto> \<lparr>pos_x = 225, pos_y = 250\<rparr>]"
  have ph: "placeholder ?g0" and ne: "mstEdges ?g0 \<noteq> []"
    by (simp_all add: initial_def edges_empty_ticker_def)
  from drawMSTGraph_builds[OF ph ne, of env6] obtain c1 where
    d: "drawMSTGraph env6 ?g0 =
          Inr \<lparr>placeholder = True, mstEdges = edges_empty_ticker, recommendations = [],
               graphCtx = Some c1, graphPositions = ?P,
               graphNodeList = [[], ''AAPL''], hoveredNode = None,
               listeners = True, repaints = 1, selected = []\<rparr>"
    by (auto simp: initial_def nodes_empty_ticker node_position_first node_position_second)
  let ?g1 = "\<lparr>placeholder = True, mstEdges = edges_empty_ticker, recommendations = [],
               graphCtx = Some c1, graphPositions = ?P,
               graphNodeList = [[], ''AAPL''], hoveredNode = None,
               listeners = True, repaints = 1, selected = []\<rparr>"
  have b: "built ?g1" by (simp add: built_def)
  have l: "last_hit (graphPositions ?g1) (surface_coords rect_full pointer_first_node)
             (graphNodeList ?g1) = Some []"
    by (simp add: coords_first_node last_hit_def hit_finite)
  have n: "Some [] \<noteq> hoveredNode ?g1" by simp
  from on_mousemove_scene[OF b l n, of env6] obtain c2 where
    m: "on_mousemove env6 ?g1 rect_full pointer_first_node =
          Inr (?g1\<lparr>hoveredNode := Some [], graphCtx := Some c2, repaints := repaints ?g1 + 1\<rparr>)"
    and s: "surface c2 = scene env6 (?g1\<lparr>hoveredNode := Some []\<rparr>)" by blast
  have sc: "scene env6 (?g1\<lparr>hoveredNode := Some []\<rparr>) =
      scene env6 \<lparr>placeholder = True, mstEdges = edges_empty_ticker, recommendations = [],
          graphCtx = None, graphPositions = ?P,
          graphNodeList = [[], ''AAPL''], hoveredNode = Some [],
          listeners = True, repaints = 0, selected = []\<rparr>"
    by (simp add: scene_def)
  have "session_empty_ticker [MouseMove rect_full pointer_first_node] =
     Inr \<lparr>placeholder = True, mstEdges = edges_empty_ticker, recommendations = [],
          graphCtx = Some c2, graphPositions = ?P,
          graphNodeList = [[], ''AAPL''], hoveredNode = Some [],
          listeners = True, repaints = 2, selected = []\<rparr>"
    using m by (simp add: session_empty_ticker_def d dispatch_def)
  then show ?thesis using s sc by auto
qed

lemma run_append:
  "run env g (xs @ ys) = (case run env g xs of Inl err \<Rightarrow> Inl err | Inr g' \<Rightarrow> run env g' ys)"
  by (induction xs arbitrary: g) (simp_all split: sum.splits)

lemma on_click_cases:
  "(\<forall>n. hoveredNode g = Some n \<and> n \<noteq> [] \<longrightarrow> selected (on_click g) = selected g @ [n])
   \<and> (hoveredNode g = None \<longrightarrow> on_click g = g)
   \<and> (hoveredNode g = Some [] \<longrightarrow> on_click g = g)"
  by (simp add: on_click_def truthy_def)

text \<open>
  Claim C5 says that a click in the state \<open>Focused(node)\<close> invokes the select callback
  exactly once with that node, and a click in the state \<open>Idle\<close> never. The handler tests
  the truth value of \<^verbatim>\<open>hoveredNode\<close>, so the claim holds for every ticker but the empty
  string (\<open>on_click_cases\<close>). The empty string is a ticker that the loader stores for a
  row with an empty field, and the pointer-move handler focuses it like any other node:
  after the pointer has moved over that node, \<^verbatim>\<open>hoveredNode\<close> is the empty string, and the
  click invokes the callback zero times.
\<close>

theorem empty_ticker_click_ignored:
  "map_sum id (\<lambda>g. (hoveredNode g, selected g))
     (session_empty_ticker [MouseMove rect_full pointer_first_node, Click]) =
   Inr (Some [], [])"
proof -
  from empty_ticker_hovered obtain c where
    h: "session_empty_ticker [MouseMove rect_full pointer_first_node] =
     Inr \<lparr>placeholder = True, mstEdges = edges_empty_ticker, recommendations = [],
          graphCtx = Some c,
          graphPositions = [[] \<mapsto> \<lparr>pos_x = 575, pos_y = 250\<rparr>,
                            ''AAPL'' \<mapsto> \<lparr>pos_x = 225, pos_y = 250\<rparr>],
          graphNodeList = [[], ''AAPL''], hoveredNode = Some [],
          listeners = True, repaints = 2, selected = []\<rparr>" by blast
  have "session_empty_ticker ([MouseMove rect_full pointer_first_node] @ [Click]) =
        (case session_empty_ticker [MouseMove rect_full pointer_first_node] of
           Inl err \<Rightarrow> Inl err | Inr g \<Rightarrow> run env6 g [Click])"
    unfolding session_empty_ticker_def run_append by (simp split: sum.splits)
  then show ?thesis
    by (simp add: h dispatch_def on_click_def truthy_def)
qed

lemma edge_stroke_style:
  "(isHighlighted h e \<longleftrightarrow> (\<exists>n. h = Some n \<and> n \<noteq> [] \<and> (edge_u e = n \<or> edge_v e = n)))
   \<and> (isHighlighted h e \<longrightarrow> edge_alpha h e = 1 \<and> edge_lineWidth h e = 3)
   \<and> (\<not> isHighlighted h e \<longrightarrow>
         edge_alpha h e = max 0.3 \<bar>edge_corr e\<bar> \<and> edge_lineWidth h e = 2 \<and> 0.3 \<le> edge_alpha h e)"
  by (auto simp: isHighlighted_def truthy_def edge_alpha_def edge_lineWidth_def
      split: option.splits)

text \<open>
  Claim C7 says that an edge with an endpoint equal to \<^verbatim>\<open>hoveredNode\<close> is drawn at the
  opacity 1 with the line width 3, and every other edge at the opacity
  \<open>max(0.3, |correlation|)\<close> with the line width 2. The code tests the truth value of
  \<^verbatim>\<open>hoveredNode\<close> first, so this holds for every hovered ticker but the empty string
  (\<open>edge_stroke_style\<close>). When the hovered node is the empty string, the edge at that node
  is drawn at the opacity 0.5 of its correlation with the line width 2, while the node
  itself is drawn as the hovered node, with the radius 20: these are the first four paint
  operations of the repaint after the pointer has moved over that node.
\<close>

theorem empty_ticker_edge_not_highlighted:
  "map_sum id (\<lambda>g. (hoveredNode g, map_option (\<lambda>c. take 4 (surface c)) (graphCtx g)))
     (session_empty_ticker [MouseMove rect_full pointer_first_node]) =
   Inr (Some [],
        Some [Stroke [MoveTo 575 250, LineTo 225 250] (Rgba 88 166 255 0.5) 2,
              FillRect 384 242 32 16 (Rgba 13 17 23 0.85),
              FillText ''0.70'' 400 250 (Css ''#8b949e'')
                ''10px \"Segoe UI\", sans-serif'' ''center'' ''middle'',
              Fill [Arc 575 250 20 0 (2 * pi)] (Css ''#8b949e'')])"
proof -
  from empty_ticker_hovered obtain c where
    h: "session_empty_ticker [MouseMove rect_full pointer_first_node] =
     Inr \<lparr>placeholder = True, mstEdges = edges_empty_ticker, recommendations = [],
          graphCtx = Some c,
          graphPositions = [[] \<mapsto> \<lparr>pos_x = 575, pos_y = 250\<rparr>,
                            ''AAPL'' \<mapsto> \<lparr>pos_x = 225, pos_y = 250\<rparr>],
          graphNodeList = [[], ''AAPL''], hoveredNode = Some [],
          listeners = True, repaints = 2, selected = []\<rparr>"
    and s: "surface c =
         scene env6 \<lparr>placeholder = True, mstEdges = edges_empty_ticker, recommendations = [],
          graphCtx = None,
          graphPositions = [[] \<mapsto> \<lparr>pos_x = 575, pos_y = 250\<rparr>,
                            ''AAPL'' \<mapsto> \<lparr>pos_x = 225, pos_y = 250\<rparr>],
          graphNodeList = [[], ''AAPL''], hoveredNode = Some [],
          listeners = True, repaints = 0, selected = []\<rparr>" by blast
  have w: "toFixed2 env 0.7 = ''0.70''" for env
    by (simp add: toFixed2_def digit_char_def show_nat.simps)
  show ?thesis
    by (simp add: h s scene_def edges_empty_ticker_def edge_paints_def node_paints_def
        edge_alpha_def edge_lineWidth_def isHighlighted_def truthy_def weightValue_def w
        env6_def nodeColor_def Let_def)
qed

section \<open>The labels of the edges\<close>

lemma scene_selected: "scene env (g\<lparr>selected := x\<rparr>) = scene env g"
  by (simp add: scene_def cong: option.case_cong)

lemma scene_ctx: "scene env (g\<lparr>graphCtx := x\<rparr>) = scene env g"
  by (simp add: scene_def cong: option.case_cong)

lemma painted_redraw:
  assumes "built g"
    and "list_all (\<lambda>e. graphPositions g (edge_u e) \<noteq> None \<and> graphPositions g (edge_v e) \<noteq> None)
           (mstEdges g)"
  shows "\<exists>g'. redrawGraph env g = Inr g' \<and> painted env g' \<and> mstEdges g' = mstEdges g
     \<and> graphPositions g' = graphPositions g \<and> graphNodeList g' = graphNodeList g
     \<and> hoveredNode g' = hoveredNode g \<and> listeners g' = listeners g"
proof -
  have ne: "graphNodeList g \<noteq> []"
    and all: "list_all (\<lambda>n. graphPositions g n \<noteq> None) (graphNodeList g)"
    using assms(1) by (simp_all add: built_def)
  from assms(1) obtain c where c: "graphCtx g = Some c" by (auto simp: built_def)
  from redrawGraph_scene[OF ne all, of env c] obtain c' where
    r: "redrawGraph env (g\<lparr>graphCtx := Some c\<rparr>) =
          Inr (g\<lparr>graphCtx := Some c', repaints := repaints g + 1\<rparr>)"
    and s: "surface c' = scene env g" by blast
  have same: "g\<lparr>graphCtx := Some c\<rparr> = g" using c by simp
  let ?g' = "g\<lparr>graphCtx := Some c', repaints := repaints g + 1\<rparr>"
  have r': "redrawGraph env g = Inr ?g'" using r unfolding same .
  have "painted env ?g'"
    using ne all assms(2) s by (simp add: painted_def built_def scene_cong)
  then show ?thesis using r' by simp
qed

lemma drawMSTGraph_painted:
  assumes "placeholder g" "mstEdges g \<noteq> []"
  shows "\<exists>g'. drawMSTGraph env g = Inr g' \<and> painted env g' \<and> mstEdges g' = mstEdges g
     \<and> graphNodeList g' = collect_nodes (mstEdges g)
     \<and> graphPositions g' =
         place_nodes (collect_nodes (mstEdges g)) 0 (length (collect_nodes (mstEdges g)))
           (graphPositions g)"
proof -
  let ?nodes = "collect_nodes (mstEdges g)"
  let ?P = "place_nodes ?nodes 0 (length ?nodes) (graphPositions g)"
  let ?g1 = "g\<lparr>graphCtx := Some new_context, graphNodeList := ?nodes,
               graphPositions := ?P, listeners := True\<rparr>"
  have def: "\<forall>n\<in>set ?nodes. ?P n \<noteq> None"
    using place_nodes_defined[of _ ?nodes 0 "length ?nodes" "graphPositions g"] by blast
  have b: "built ?g1"
    using def assms(2) by (simp add: built_def list_all_iff collect_nodes_nonempty)
  have ends: "list_all (\<lambda>e. graphPositions ?g1 (edge_u e) \<noteq> None \<and>
                           graphPositions ?g1 (edge_v e) \<noteq> None) (mstEdges ?g1)"
    unfolding list_all_iff
  proof
    fix e assume "e \<in> set (mstEdges ?g1)"
    then have "edge_u e \<in> set ?nodes" "edge_v e \<in> set ?nodes"
      by (simp_all add: set_collect_nodes)
    then show "graphPositions ?g1 (edge_u e) \<noteq> None \<and> graphPositions ?g1 (edge_v e) \<noteq> None"
      using def by simp
  qed
  from painted_redraw[OF b ends, of env] obtain g' where
    "redrawGraph env ?g1 = Inr g'" "painted env g'" "mstEdges g' = mstEdges ?g1"
    "graphPositions g' = graphPositions ?g1" "graphNodeList g' = graphNodeList ?g1" by blast
  then show ?thesis using assms by (simp add: drawMSTGraph_def Let_def)
qed

lemma builder_stores_layout:
  assumes "placeholder g" "mstEdges g \<noteq> []" "i < length (collect_nodes (mstEdges g))"
  shows "\<exists>g'. drawMSTGraph env g = Inr g' \<and> graphNodeList g' = collect_nodes (mstEdges g)
     \<and> graphPositions g' (graphNodeList g' ! i) =
         Some (node_position i (length (graphNodeList g')))"
proof -
  from drawMSTGraph_painted[OF assms(1,2), of env] obtain g' where
    d: "drawMSTGraph env g = Inr g'"
    and n: "graphNodeList g' = collect_nodes (mstEdges g)"
    and p: "graphPositions g' =
         place_nodes (collect_nodes (mstEdges g)) 0 (length (collect_nodes (mstEdges g)))
           (graphPositions g)" by blast
  have "graphPositions g' (graphNodeList g' ! i) =
        Some (node_position (0 + i) (length (graphNodeList g')))"
    unfolding n p using place_nodes_nth[OF distinct_collect_nodes assms(3)] .
  then show ?thesis using d n by simp
qed

lemma dispatch_painted:
  assumes "painted env g"
  shows "\<exists>g'. dispatch env g e = Inr g' \<and> painted env g' \<and> mstEdges g' = mstEdges g
     \<and> graphPositions g' = graphPositions g \<and> graphNodeList g' = graphNodeList g"
proof (cases "listeners g")
  case False
  then show ?thesis using assms by (simp add: dispatch_def)
next
  case True
  have b: "built g"
    and ends: "list_all (\<lambda>e. graphPositions g (edge_u e) \<noteq> None \<and>
                            graphPositions g (edge_v e) \<noteq> None) (mstEdges g)"
    using assms by (simp_all add: painted_def)
  have all: "list_all (\<lambda>n. graphPositions g n \<noteq> None) (graphNodeList g)"
    using b by (simp add: built_def)
  show ?thesis
  proof (cases e)
    case (MouseMove r ev)
    let ?found = "last_hit (graphPositions g) (surface_coords r ev) (graphNodeList g)"
    have f: "find_node (graphPositions g) (surface_coords r ev) (graphNodeList g) None =
             Inr ?found"
      using find_node_last_hit[OF all, of "surface_coords r ev" None]
      by (simp split: option.splits)
    show ?thesis
    proof (cases "?found = hoveredNode g")
      case same: True
      then have "dispatch env g e = Inr g"
        using True MouseMove by (simp add: dispatch_def on_mousemove_def f)
      then show ?thesis using assms by simp
    next
      case False
      let ?g1 = "g\<lparr>hoveredNode := ?found\<rparr>"
      have b1: "built ?g1" using b by (simp add: built_def)
      have ends1: "list_all (\<lambda>e. graphPositions ?g1 (edge_u e) \<noteq> None \<and>
                            graphPositions ?g1 (edge_v e) \<noteq> None) (mstEdges ?g1)"
        using ends by simp
      from painted_redraw[OF b1 ends1, of env] obtain g' where
        "redrawGraph env ?g1 = Inr g'" "painted env g'" "mstEdges g' = mstEdges ?g1"
        "graphPositions g' = graphPositions ?g1" "graphNodeList g' = graphNodeList ?g1"
        by blast
      then show ?thesis
        using True MouseMove False by (simp add: dispatch_def on_mousemove_def f)
    qed
  next
    case MouseLeave
    let ?g1 = "g\<lparr>hoveredNode := None\<rparr>"
    have b1: "built ?g1" using b by (simp add: built_def)
    have ends1: "list_all (\<lambda>e. graphPositions ?g1 (edge_u e) \<noteq> None \<and>
                            graphPositions ?g1 (edge_v e) \<noteq> None) (mstEdges ?g1)"
      using ends by simp
    from painted_redraw[OF b1 ends1, of env] obtain g' where
      "redrawGraph env ?g1 = Inr g'" "painted env g'" "mstEdges g' = mstEdges ?g1"
      "graphPositions g' = graphPositions ?g1" "graphNodeList g' = graphNodeList ?g1"
      by blast
    then show ?thesis using True MouseLeave by (simp add: dispatch_def on_mouseleave_def)
  next
    case Click
    have "painted env (on_click g)"
      using assms
      by (auto simp: on_click_def painted_def built_def scene_selected split: option.splits)
    moreover have "mstEdges (on_click g) = mstEdges g \<and>
        graphPositions (on_click g) = graphPositions g \<and>
        graphNodeList (on_click g) = graphNodeList g"
      by (simp add: on_click_def split: option.splits)
    ultimately show ?thesis using True Click by (simp add: dispatch_def)
  qed
qed

lemma run_painted:
  "painted env g \<Longrightarrow>
   \<exists>g'. run env g evs = Inr g' \<and> painted env g' \<and> mstEdges g' = mstEdges g
     \<and> graphPositions g' = graphPositions g \<and> graphNodeList g' = graphNodeList g"
proof (induction evs arbitrary: g)
  case Nil
  then show ?case by simp
next
  case (Cons e evs)
  from dispatch_painted[OF Cons.prems, of e] obtain g1 where
    g1: "dispatch env g e = Inr g1" "painted env g1" "mstEdges g1 = mstEdges g"
      "graphPositions g1 = graphPositions g" "graphNodeList g1 = graphNodeList g" by blast
  from Cons.IH[OF g1(2)] show ?case using g1 by auto
qed

lemma label_in_scene:
  assumes "e \<in> set (mstEdges g)"
    and "graphPositions g (edge_u e) = Some u" "graphPositions g (edge_v e) = Some v"
  shows "FillText (toFixed2 env (weightValue e)) ((pos_x u + pos_x v) / 2)
           ((pos_y u + pos_y v) / 2)
           (if isHighlighted (hoveredNode g) e then Css ''#58a6ff'' else Css ''#8b949e'')
           ''10px \"Segoe UI\", sans-serif'' ''center'' ''middle'' \<in> set (scene env g)"
proof -
  have "FillText (toFixed2 env (weightValue e)) ((pos_x u + pos_x v) / 2)
           ((pos_y u + pos_y v) / 2)
           (if isHighlighted (hoveredNode g) e then Css ''#58a6ff'' else Css ''#8b949e'')
           ''10px \"Segoe UI\", sans-serif'' ''center'' ''middle''
        \<in> set (edge_paints env (graphPositions g) (hoveredNode g) e)"
    using assms(2,3) by (simp add: edge_paints_def Let_def)
  then show ?thesis using assms(1) by (auto simp: scene_def)
qed

lemma toFixed2_042: "toFixed2 env 0.42 = ''0.42''"
  by (simp add: toFixed2_def digit_char_def show_nat.simps)

text \<open>
  Claim C6. Whenever the graph has been drawn, and after every sequence of events, the
  surface shows for every edge of the edge list a label at the midpoint of the edge: the
  weight value in the format of \<^verbatim>\<open>toFixed(2)\<close>. The weight value is the distance of the
  edge when the distance is a number other than zero, and the correlation otherwise: an
  edge with the distance 0, or with no distance, and the correlation 0.42 is labelled
  0.42.
\<close>

theorem edge_label_weight:
  assumes "placeholder g" "mstEdges g \<noteq> []"
  shows "(\<exists>g'. drawMSTGraph env g = Inr g' \<and>
      (\<forall>evs. \<exists>g'' c. run env g' evs = Inr g'' \<and> graphCtx g'' = Some c
          \<and> surface c = scene env g'' \<and> mstEdges g'' = mstEdges g
          \<and> (\<forall>e\<in>set (mstEdges g). \<exists>u v.
                 graphPositions g'' (edge_u e) = Some u \<and> graphPositions g'' (edge_v e) = Some v
               \<and> FillText (toFixed2 env (weightValue e)) ((pos_x u + pos_x v) / 2)
                   ((pos_y u + pos_y v) / 2)
                   (if isHighlighted (hoveredNode g'') e then Css ''#58a6ff'' else Css ''#8b949e'')
                   ''10px \"Segoe UI\", sans-serif'' ''center'' ''middle'' \<in> set (surface c))))
    \<and> (\<forall>e::edge. \<forall>d. edge_distance e = Some d \<and> d \<noteq> 0 \<longrightarrow> weightValue e = d)
    \<and> (\<forall>e::edge. edge_distance e = Some 0 \<or> edge_distance e = None \<longrightarrow> weightValue e = edge_corr e)
    \<and> (\<forall>e::edge. (edge_distance e = Some 0 \<or> edge_distance e = None) \<and> edge_corr e = 0.42 \<longrightarrow>
            toFixed2 env (weightValue e) = ''0.42'')"
proof -
  from drawMSTGraph_painted[OF assms, of env] obtain g' where
    d: "drawMSTGraph env g = Inr g'" and p: "painted env g'" and m: "mstEdges g' = mstEdges g"
    by blast
  have a: "\<forall>evs. \<exists>g'' c. run env g' evs = Inr g'' \<and> graphCtx g'' = Some c
          \<and> surface c = scene env g'' \<and> mstEdges g'' = mstEdges g
          \<and> (\<forall>e\<in>set (mstEdges g). \<exists>u v.
                 graphPositions g'' (edge_u e) = Some u \<and> graphPositions g'' (edge_v e) = Some v
               \<and> FillText (toFixed2 env (weightValue e)) ((pos_x u + pos_x v) / 2)
                   ((pos_y u + pos_y v) / 2)
                   (if isHighlighted (hoveredNode g'') e then Css ''#58a6ff'' else Css ''#8b949e'')
                   ''10px \"Segoe UI\", sans-serif'' ''center'' ''middle'' \<in> set (surface c))"
  proof
    fix evs
    from run_painted[OF p, of evs] obtain g'' where
      r: "run env g' evs = Inr g''" and p'': "painted env g''" and m'': "mstEdges g'' = mstEdges g'"
      by blast
    from p'' obtain c where c: "graphCtx g'' = Some c" and s: "surface c = scene env g''"
      by (auto simp: painted_def split: option.splits)
    have ends: "\<forall>e\<in>set (mstEdges g''). graphPositions g'' (edge_u e) \<noteq> None \<and>
                  graphPositions g'' (edge_v e) \<noteq> None"
      using p'' by (simp add: painted_def list_all_iff)
    have "\<forall>e\<in>set (mstEdges g). \<exists>u v.
                 graphPositions g'' (edge_u e) = Some u \<and> graphPositions g'' (edge_v e) = Some v
               \<and> FillText (toFixed2 env (weightValue e)) ((pos_x u + pos_x v) / 2)
                   ((pos_y u + pos_y v) / 2)
                   (if isHighlighted (hoveredNode g'') e then Css ''#58a6ff'' else Css ''#8b949e'')
                   ''10px \"Segoe UI\", sans-serif'' ''center'' ''middle'' \<in> set (surface c)"
    proof
      fix e assume e: "e \<in> set (mstEdges g)"
      then have e'': "e \<in> set (mstEdges g'')" using m m'' by simp
      with ends obtain u v where uv: "graphPositions g'' (edge_u e) = Some u"
        "graphPositions g'' (edge_v e) = Some v" by auto
      from label_in_scene[OF e'' uv, of env] show "\<exists>u v.
                 graphPositions g'' (edge_u e) = Some u \<and> graphPositions g'' (edge_v e) = Some v
               \<and> FillText (toFixed2 env (weightValue e)) ((pos_x u + pos_x v) / 2)
                   ((pos_y u + pos_y v) / 2)
                   (if isHighlighted (hoveredNode g'') e then Css ''#58a6ff'' else Css ''#8b949e'')
                   ''10px \"Segoe UI\", sans-serif'' ''center'' ''middle'' \<in> set (surface c)"
        using uv s by auto
    qed
    then show "\<exists>g'' c. run env g' evs = Inr g'' \<and> graphCtx g'' = Some c
          \<and> surface c = scene env g'' \<and> mstEdges g'' = mstEdges g
          \<and> (\<forall>e\<in>set (mstEdges g). \<exists>u v.
                 graphPositions g'' (edge_u e) = Some u \<and> graphPositions g'' (edge_v e) = Some v
               \<and> FillText (toFixed2 env (weightValue e)) ((pos_x u + pos_x v) / 2)
                   ((pos_y u + pos_y v) / 2)
                   (if isHighlighted (hoveredNode g'') e then Css ''#58a6ff'' else Css ''#8b949e'')
                   ''10px \"Segoe UI\", sans-serif'' ''center'' ''middle'' \<in> set (surface c))"
      using r c s m m'' by auto
  qed
  have b: "\<forall>e::edge. \<forall>d. edge_distance e = Some d \<and> d \<noteq> 0 \<longrightarrow> weightValue e = d"
    by (simp add: weightValue_def)
  have c: "\<forall>e::edge. edge_distance e = Some 0 \<or> edge_distance e = None \<longrightarrow> weightValue e = edge_corr e"
    by (auto simp: weightValue_def)
  have e: "\<forall>e::edge. (edge_distance e = Some 0 \<or> edge_distance e = None) \<and> edge_corr e = 0.42 \<longrightarrow>
            toFixed2 env (weightValue e) = ''0.42''"
  proof (intro allI impI)
    fix e :: edge
    assume "(edge_distance e = Some 0 \<or> edge_distance e = None) \<and> edge_corr e = 0.42"
    then have "weightValue e = 0.42" using c by metis
    then show "toFixed2 env (weightValue e) = ''0.42''" by (simp only: toFixed2_042)
  qed
  show ?thesis using d a b c e by blast
qed

text \<open>
  The graph of the one edge from A to B with the distance 0 and the correlation 0.42, after
  it is drawn: the label 0.42 is on the surface, at the midpoint of A and B.
\<close>

theorem edge_label_weight_witness:
  "placeholder (initial [edge_zero_distance] [] True)
   \<and> mstEdges (initial [edge_zero_distance] [] True) \<noteq> []
   \<and> (\<exists>g' c u v col. drawMSTGraph env6 (initial [edge_zero_distance] [] True) = Inr g'
        \<and> graphCtx g' = Some c
        \<and> graphPositions g' ''A'' = Some u \<and> graphPositions g' ''B'' = Some v
        \<and> FillText ''0.42'' ((pos_x u + pos_x v) / 2) ((pos_y u + pos_y v) / 2) col
            ''10px \"Segoe UI\", sans-serif'' ''center'' ''middle'' \<in> set (surface c))"
proof -
  let ?g = "initial [edge_zero_distance] [] True"
  have h1: "placeholder ?g" by (simp add: initial_def)
  have h2: "mstEdges ?g \<noteq> []" by (simp add: initial_def)
  have m: "edge_zero_distance \<in> set (mstEdges ?g)" by (simp add: initial_def)
  have z: "(edge_distance edge_zero_distance = Some 0 \<or> edge_distance edge_zero_distance = None)
           \<and> edge_corr edge_zero_distance = 0.42"
    by (simp add: edge_zero_distance_def)
  have n: "edge_u edge_zero_distance = ''A''" "edge_v edge_zero_distance = ''B''"
    by (simp_all add: edge_zero_distance_def)
  note t = edge_label_weight[OF h1 h2, of env6]
  from t z have lbl: "toFixed2 env6 (weightValue edge_zero_distance) = ''0.42''" by blast
  from t obtain g' where d: "drawMSTGraph env6 ?g = Inr g'"
    and r: "\<forall>evs. \<exists>g'' c. run env6 g' evs = Inr g'' \<and> graphCtx g'' = Some c
          \<and> surface c = scene env6 g'' \<and> mstEdges g'' = mstEdges ?g
          \<and> (\<forall>e\<in>set (mstEdges ?g). \<exists>u v.
                 graphPositions g'' (edge_u e) = Some u \<and> graphPositions g'' (edge_v e) = Some v
               \<and> FillText (toFixed2 env6 (weightValue e)) ((pos_x u + pos_x v) / 2)
                   ((pos_y u + pos_y v) / 2)
                   (if isHighlighted (hoveredNode g'') e then Css ''#58a6ff'' else Css ''#8b949e'')
                   ''10px \"Segoe UI\", sans-serif'' ''center'' ''middle'' \<in> set (surface c))"
    by blast
  from r[rule_format, of "[]"] obtain c where c: "graphCtx g' = Some c"
    and all: "\<forall>e\<in>set (mstEdges ?g). \<exists>u v.
                 graphPositions g' (edge_u e) = Some u \<and> graphPositions g' (edge_v e) = Some v
               \<and> FillText (toFixed2 env6 (weightValue e)) ((pos_x u + pos_x v) / 2)
                   ((pos_y u + pos_y v) / 2)
                   (if isHighlighted (hoveredNode g') e then Css ''#58a6ff'' else Css ''#8b949e'')
                   ''10px \"Segoe UI\", sans-serif'' ''center'' ''middle'' \<in> set (surface c)"
    by auto
  from all m obtain u v where
    "graphPositions g' ''A'' = Some u" "graphPositions g' ''B'' = Some v"
    "FillText ''0.42'' ((pos_x u + pos_x v) / 2) ((pos_y u + pos_y v) / 2)
       (if isHighlighted (hoveredNode g') edge_zero_distance then Css ''#58a6ff'' else Css ''#8b949e'')
       ''10px \"Segoe UI\", sans-serif'' ''center'' ''middle'' \<in> set (surface c)"
    unfolding n[symmetric] lbl[symmetric] by blast
  with h1 h2 d c show ?thesis by blast
qed

end
